theory Spec2Isabelle
  imports Main
begin

section \<open>Errors, file system and network\<close>

text \<open>
  The launcher (\<^verbatim>\<open>main.go\<close>) talks to the world through the standard library and the
  helper package \<^verbatim>\<open>common\<close>: files, HTTP, ZIP archives, child processes. Every Go
  \<^verbatim>\<open>error\<close> is a value of the type below; a function that returns \<^verbatim>\<open>(x, err)\<close> returns
  \<open>error + 'a\<close> here, one that returns only \<^verbatim>\<open>err\<close> returns \<open>error option\<close>.
\<close>

datatype error =
    NetError string
  | FsError string
  | ZipError string
  | ExecError string
  | XmlError string
  | UrlError string

text \<open>
  The disk: regular files with their content, the directories that exist, and the paths
  on which \<^verbatim>\<open>os.Stat\<close>, \<^verbatim>\<open>os.MkdirAll\<close> or \<^verbatim>\<open>os.Create\<close> fail (a permission
  problem, say). \<open>dir_size\<close> is the size \<^verbatim>\<open>os.Stat\<close> reports for a directory.
\<close>

record fsys =
  files :: "string \<rightharpoonup> string"
  dirs :: "string set"
  stat_fails :: "string set"
  mkdir_fails :: "string set"
  write_fails :: "string set"
  dir_size :: int

text \<open>An HTTP response: status, the \<^verbatim>\<open>Content-Length\<close> header as sent (empty when
  absent), the body bytes that arrive, and the error that ends the body early, if any.\<close>

record response =
  StatusCode :: nat
  ContentLength :: string
  Body :: string
  BodyErr :: "error option"

datatype netop = HEAD string | GET string

subsection \<open>Paths: \<^verbatim>\<open>path/filepath\<close> on a Unix target\<close>

fun splitSlash :: "string \<Rightarrow> string list" where
  "splitSlash [] = [[]]"
| "splitSlash (c # cs) =
     (if c = CHR ''/'' then [] # splitSlash cs
      else (case splitSlash cs of [] \<Rightarrow> [[c]] | x # xs \<Rightarrow> (c # x) # xs))"

fun joinSlash :: "string list \<Rightarrow> string" where
  "joinSlash [] = []"
| "joinSlash [x] = x"
| "joinSlash (x # y # ys) = x @ CHR ''/'' # joinSlash (y # ys)"

text \<open>\<^verbatim>\<open>filepath.Clean\<close>: empty and \<^verbatim>\<open>.\<close> elements go, an inner \<^verbatim>\<open>..\<close> removes the
  element before it, a \<^verbatim>\<open>..\<close> at the start of a rooted path goes, the empty result is
  \<^verbatim>\<open>.\<close>. \<open>out\<close> is the list of elements kept so far.\<close>

fun cleanElems :: "bool \<Rightarrow> string list \<Rightarrow> string list \<Rightarrow> string list" where
  "cleanElems rooted out [] = out"
| "cleanElems rooted out (e # es) =
     (if e = [] \<or> e = ''.'' then cleanElems rooted out es
      else if e = ''..'' then
        (if out \<noteq> [] \<and> last out \<noteq> ''..'' then cleanElems rooted (butlast out) es
         else if rooted then cleanElems rooted out es
         else cleanElems rooted (out @ [e]) es)
      else cleanElems rooted (out @ [e]) es)"

definition isRooted :: "string \<Rightarrow> bool" where
  "isRooted p = (case p of [] \<Rightarrow> False | c # _ \<Rightarrow> c = CHR ''/'')"

definition render :: "bool \<Rightarrow> string list \<Rightarrow> string" where
  "render rooted out =
     (if rooted then CHR ''/'' # joinSlash out
      else if out = [] then ''.'' else joinSlash out)"

definition Clean :: "string \<Rightarrow> string" where
  "Clean p = render (isRooted p) (cleanElems (isRooted p) [] (splitSlash p))"

text \<open>\<^verbatim>\<open>filepath.Join\<close>: leading empty elements are dropped, the rest is joined with
  the separator and cleaned; no element at all gives the empty string.\<close>

definition Join :: "string list \<Rightarrow> string" where
  "Join elem =
     (case dropWhile (\<lambda>e. e = []) elem of
        [] \<Rightarrow> []
      | e # es \<Rightarrow> Clean (joinSlash (e # es)))"

text \<open>\<^verbatim>\<open>filepath.Dir\<close>: the path up to its last separator, cleaned.\<close>

definition Dir :: "string \<Rightarrow> string" where
  "Dir p = Clean (rev (dropWhile (\<lambda>c. c \<noteq> CHR ''/'') (rev p)))"

subsection \<open>The file primitives of \<^verbatim>\<open>common\<close> and \<^verbatim>\<open>os\<close>\<close>

text \<open>\<^verbatim>\<open>common.FileExists\<close>: \<^verbatim>\<open>os.Stat\<close>; "not there" is \<open>False\<close> with no error, any
  other failure of the stat is an error.\<close>

definition FileExists :: "fsys \<Rightarrow> string \<Rightarrow> error + bool" where
  "FileExists d p =
     (if p \<in> stat_fails d then Inl (FsError p)
      else Inr (files d p \<noteq> None \<or> p \<in> dirs d))"

definition FileSize :: "fsys \<Rightarrow> string \<Rightarrow> error + int" where
  "FileSize d p =
     (if p \<in> stat_fails d then Inl (FsError p)
      else (case files d p of
              Some c \<Rightarrow> Inr (int (length c))
            | None \<Rightarrow> if p \<in> dirs d then Inr (dir_size d) else Inl (FsError p)))"

text \<open>The directory and its parents, nearest first; \<open>Dir\<close> shortens a path until it
  reaches \<^verbatim>\<open>/\<close> or \<^verbatim>\<open>.\<close>, so the length of the path is fuel enough.\<close>

fun dirChain :: "nat \<Rightarrow> string \<Rightarrow> string list" where
  "dirChain 0 p = [p]"
| "dirChain (Suc n) p = p # (if Dir p = p then [] else dirChain n (Dir p))"

text \<open>\<^verbatim>\<open>os.MkdirAll\<close>: creates the directory and every missing parent; fails where a
  regular file is in the way.\<close>

definition MkdirAll :: "fsys \<Rightarrow> string \<Rightarrow> error + fsys" where
  "MkdirAll d p =
     (if p \<in> mkdir_fails d \<or> list_ex (\<lambda>a. files d a \<noteq> None) (dirChain (length p) p)
      then Inl (FsError p)
      else Inr (d\<lparr>dirs := dirs d \<union> set (dirChain (length p) p)\<rparr>))"

text \<open>\<^verbatim>\<open>common.FileStore\<close>: creates or truncates the file and copies the reader into
  it. When the reader fails on the way, the bytes that arrived stay in the file.\<close>

definition FileStore :: "fsys \<Rightarrow> string \<Rightarrow> string \<Rightarrow> error option \<Rightarrow> error option \<times> fsys" where
  "FileStore d p content readErr =
     (if p \<in> write_fails d \<or> p \<in> dirs d then (Some (FsError p), d)
      else (readErr, d\<lparr>files := (files d)(p \<mapsto> content)\<rparr>))"

subsection \<open>\<^verbatim>\<open>strconv.ParseInt(s, 10, 64)\<close> with its error dropped\<close>

fun digits :: "string \<Rightarrow> nat \<Rightarrow> nat option" where
  "digits [] acc = Some acc"
| "digits (c # cs) acc =
     (if 48 \<le> (of_char c :: nat) \<and> (of_char c :: nat) \<le> 57
      then digits cs (10 * acc + (of_char c - 48))
      else None)"

text \<open>The source writes \<^verbatim>\<open>contentLength, _ := strconv.ParseInt(...)\<close>: a header that
  is no number reads as 0, one out of range as the nearest 64-bit value.\<close>

definition ParseInt :: "string \<Rightarrow> int" where
  "ParseInt s =
     (let neg = (s \<noteq> [] \<and> hd s = CHR ''-'');
          ds = (if s \<noteq> [] \<and> (hd s = CHR ''-'' \<or> hd s = CHR ''+'') then tl s else s)
      in if ds = [] then 0
         else (case digits ds 0 of
                 None \<Rightarrow> 0
               | Some n \<Rightarrow>
                   if neg then (if 2 ^ 63 < n then - (2 ^ 63) else - int n)
                   else (if 2 ^ 63 \<le> n then 2 ^ 63 - 1 else int n)))"

section \<open>The descriptor\<close>

record J2se =
  j2seHref :: string
  Version :: string
  MaxHeapSize :: string

record Jar =
  jarHref :: string

record Extension =
  extHref :: string

record Resource =
  J2ses :: "J2se list"
  Javas :: "J2se list"
  Os :: string
  Arch :: string
  Jars :: "Jar list"
  Nativelibs :: "Jar list"
  Extensions :: "Extension list"

record PrivateJre =
  jreOs :: string
  jreArch :: string
  jreHref :: string

record ApplicationDesc =
  appMainClass :: string
  Arguments :: "string list"

record AppletDesc =
  appletMainClass :: string
  Params :: "string list"

record Jnlp =
  Codebase :: string
  Resources :: "Resource list"
  PrivateJres :: "PrivateJre list"
  ApplicationDesc :: ApplicationDesc
  AppletDesc :: AppletDesc

section \<open>Environment, configuration and program state\<close>

text \<open>A ZIP member as \<^verbatim>\<open>archive/zip\<close> presents it: name, directory flag, and what
  opening it gives.\<close>

record zipentry =
  zipName :: string
  zipIsDir :: bool
  zipOpen :: "error + string"

text \<open>
  What the program does not decide itself: the remote servers, URL parsing
  (\<^verbatim>\<open>net/url\<close>), the XML decoder, the ZIP reader, child processes and
  \<^verbatim>\<open>common.Trim4Path\<close>. \<open>urlHost a\<close> is \<^verbatim>\<open>url.Parse(a)\<close> followed by \<^verbatim>\<open>.Host\<close>;
  \<open>urlResolve a r\<close> is \<^verbatim>\<open>u.Parse(r)\<close> for \<^verbatim>\<open>u = url.Parse(a)\<close>, as a string.
\<close>

record env =
  httpGet :: "string \<Rightarrow> error + response"
  httpHead :: "string \<Rightarrow> error + response"
  urlHost :: "string \<Rightarrow> error + string"
  urlResolve :: "string \<Rightarrow> string \<Rightarrow> error + string"
  decodeJnlp :: "string \<Rightarrow> error + Jnlp"
  zipRead :: "fsys \<Rightarrow> string \<Rightarrow> error + zipentry list"
  execRun :: "fsys \<Rightarrow> string \<Rightarrow> string list \<Rightarrow> error option \<times> fsys"
  startProcess :: "string \<Rightarrow> string list \<Rightarrow> error option"
  Trim4Path :: "string \<Rightarrow> string"

text \<open>The command line flags as \<^verbatim>\<open>run\<close> reads them, a sole positional argument taken
  as the URL, and the build target (\<^verbatim>\<open>runtime.GOOS\<close>). Called without any argument
  \<^verbatim>\<open>run\<close> prints the usage and exits; the model starts after that test.\<close>

record config =
  address :: string
  jreFlag :: string
  arch :: string
  cache :: string
  GOOS :: string

text \<open>A goroutine started with \<^verbatim>\<open>go\<close> and not yet run.\<close>

datatype task =
    ResourceTask string string bool bool
  | JnlpTask string bool

text \<open>
  The package variables \<^verbatim>\<open>jars\<close>, \<^verbatim>\<open>nativelibs\<close>, \<^verbatim>\<open>maxheapsize\<close>, \<^verbatim>\<open>*jrepath\<close>, the
  counter of the wait group \<^verbatim>\<open>wg\<close>, the errors of the \<^verbatim>\<open>ChannelError\<close> in the order
  they were added, the disk, the requests sent so far, and the goroutines started and
  not yet run.
\<close>

record state =
  jars :: string
  nativelibs :: string
  maxheapsize :: string
  jrepath :: string
  wg :: int
  errs :: "error list"
  disk :: fsys
  netlog :: "netop list"
  pool :: "task list"

section \<open>The cache reconciler: \<^verbatim>\<open>download\<close>\<close>

text \<open>The block under \<^verbatim>\<open>if b\<close>: a metadata-only request, and the comparison of the
  declared length with the size of the cached file. The result is \<^verbatim>\<open>mustDownload\<close>.\<close>

definition probe :: "env \<Rightarrow> string \<Rightarrow> string \<Rightarrow> state \<Rightarrow> (error + bool) \<times> state" where
  "probe E href filename s =
     (let s1 = s\<lparr>netlog := netlog s @ [HEAD href]\<rparr> in
      case httpHead E href of
        Inl err \<Rightarrow> (Inl err, s1)
      | Inr response \<Rightarrow>
          (let contentLength = ParseInt (ContentLength response) in
           case FileSize (disk s1) filename of
             Inl err \<Rightarrow> (Inl err, s1)
           | Inr fs \<Rightarrow> (Inr (fs \<noteq> contentLength), s1)))"

text \<open>The block under \<^verbatim>\<open>if mustDownload\<close>: the request for the body, the parent
  directories, the store. The status of the response is not looked at.\<close>

definition fetch :: "env \<Rightarrow> string \<Rightarrow> string \<Rightarrow> state \<Rightarrow> error option \<times> state" where
  "fetch E href filename s =
     (let s2 = s\<lparr>netlog := netlog s @ [GET href]\<rparr> in
      case httpGet E href of
        Inl err \<Rightarrow> (Some err, s2)
      | Inr response \<Rightarrow>
          (case MkdirAll (disk s2) (Dir filename) of
             Inl err \<Rightarrow> (Some err, s2)
           | Inr d \<Rightarrow>
               (case FileStore d filename (Body response) (BodyErr response) of
                  (r, d') \<Rightarrow> (r, s2\<lparr>disk := d'\<rparr>))))"

text \<open>\<^verbatim>\<open>download\<close>. Its first lines are
  \<^verbatim>\<open>b, err := common.FileExists(filename); if err != nil { return nil }\<close>.\<close>

definition download :: "env \<Rightarrow> string \<Rightarrow> string \<Rightarrow> state \<Rightarrow> error option \<times> state" where
  "download E href filename s =
     (case FileExists (disk s) filename of
        Inl err \<Rightarrow> (None, s)
      | Inr b \<Rightarrow>
          (case (if b then probe E href filename s else (Inr True, s)) of
             (Inl err, s1) \<Rightarrow> (Some err, s1)
           | (Inr mustDownload, s1) \<Rightarrow>
               if mustDownload then fetch E href filename s1 else (None, s1)))"

section \<open>Strings: \<^verbatim>\<open>strings\<close> and \<^verbatim>\<open>unicode\<close>\<close>

text \<open>A Go string is a sequence of bytes, here a \<open>string\<close>. \<^verbatim>\<open>strings.Join\<close> of the
  two-element slices the program builds, \<^verbatim>\<open>strings.HasSuffix\<close>, and
  \<^verbatim>\<open>strings.LastIndex\<close> for a one-byte separator (\<open>-1\<close> when it does not occur).\<close>

fun stringsJoin :: "string list \<Rightarrow> string \<Rightarrow> string" where
  "stringsJoin [] sep = []"
| "stringsJoin [x] sep = x"
| "stringsJoin (x # y # ys) sep = x @ sep @ stringsJoin (y # ys) sep"

definition HasSuffix :: "string \<Rightarrow> string \<Rightarrow> bool" where
  "HasSuffix s suffix =
     (length suffix \<le> length s \<and> drop (length s - length suffix) s = suffix)"

definition LastIndex :: "string \<Rightarrow> char \<Rightarrow> int" where
  "LastIndex s c =
     (if c \<in> set s then int (length s) - 1 - int (length (takeWhile (\<lambda>x. x \<noteq> c) (rev s)))
      else - 1)"

text \<open>\<^verbatim>\<open>filepath.ListSeparator\<close> on a Unix target.\<close>

definition ListSeparator :: string where
  "ListSeparator = '':''"

subsection \<open>UTF-8\<close>

text \<open>The case functions of \<^verbatim>\<open>strings\<close> work on the code points of the string, as
  \<^verbatim>\<open>range\<close> reads them: a byte that starts no valid encoding is read as U+FFFD and
  takes one byte. \<open>lead b\<close> is, for a leading byte, the number of continuation bytes,
  the bounds of the first of them, and the bits the leading byte contributes.\<close>

definition lead :: "nat \<Rightarrow> (nat \<times> nat \<times> nat \<times> nat) option" where
  "lead b =
     (if 194 \<le> b \<and> b \<le> 223 then Some (1, 128, 191, b - 192)
      else if b = 224 then Some (2, 160, 191, b - 224)
      else if b = 237 then Some (2, 128, 159, b - 224)
      else if 225 \<le> b \<and> b \<le> 239 then Some (2, 128, 191, b - 224)
      else if b = 240 then Some (3, 144, 191, b - 240)
      else if 241 \<le> b \<and> b \<le> 243 then Some (3, 128, 191, b - 240)
      else if b = 244 then Some (3, 128, 143, b - 240)
      else None)"

fun decodeRunes :: "nat list \<Rightarrow> nat list" where
  "decodeRunes [] = []"
| "decodeRunes (b # bs) =
     (if b < 128 then b # decodeRunes bs
      else (case lead b of
              None \<Rightarrow> 65533 # decodeRunes bs
            | Some (n, lo, hi, bits) \<Rightarrow>
                if n \<le> length bs \<and> lo \<le> hd bs \<and> hd bs \<le> hi
                   \<and> list_all (\<lambda>c. 128 \<le> c \<and> c \<le> 191) (take n bs)
                then foldl (\<lambda>acc c. acc * 64 + (c - 128)) bits (take n bs) # decodeRunes (drop n bs)
                else 65533 # decodeRunes bs))"

definition encodeRune :: "nat \<Rightarrow> nat list" where
  "encodeRune r =
     (if r < 128 then [r]
      else if r < 2048 then [192 + r div 64, 128 + r mod 64]
      else if (55296 \<le> r \<and> r \<le> 57343) \<or> 1114111 < r then [239, 191, 189]
      else if r < 65536 then [224 + r div 4096, 128 + (r div 64) mod 64, 128 + r mod 64]
      else [240 + r div 262144, 128 + (r div 4096) mod 64, 128 + (r div 64) mod 64, 128 + r mod 64])"

definition runesOf :: "string \<Rightarrow> nat list" where
  "runesOf s = decodeRunes (map of_char s)"

definition stringOf :: "nat list \<Rightarrow> string" where
  "stringOf rs = map char_of (concat (map encodeRune rs))"

subsection \<open>Case mapping\<close>

text \<open>
  The entries of \<^verbatim>\<open>unicode.CaseRanges\<close> for the code points up to U+0131, and those of
  U+017F (long s), U+039C and U+03BC (Greek mu). On every other code point the three
  functions below are the identity, which \<^verbatim>\<open>unicode\<close> is not: the theorems about them
  are stated for strings that stay within the part given here.
\<close>

definition toLowerRune :: "nat \<Rightarrow> nat" where
  "toLowerRune r =
     (if 65 \<le> r \<and> r \<le> 90 then r + 32
      else if 192 \<le> r \<and> r \<le> 222 \<and> r \<noteq> 215 then r + 32
      else if 256 \<le> r \<and> r \<le> 303 \<and> even r then r + 1
      else if r = 304 then 105
      else if r = 924 then 956
      else r)"

definition toUpperRune :: "nat \<Rightarrow> nat" where
  "toUpperRune r =
     (if 97 \<le> r \<and> r \<le> 122 then r - 32
      else if r = 181 then 924
      else if 224 \<le> r \<and> r \<le> 254 \<and> r \<noteq> 247 then r - 32
      else if r = 255 then 376
      else if 256 \<le> r \<and> r \<le> 303 \<and> odd r then r - 1
      else if r = 305 then 73
      else if r = 383 then 83
      else if r = 956 then 924
      else r)"

text \<open>In the part of the table given here the title case of a letter is its upper
  case.\<close>

definition toTitleRune :: "nat \<Rightarrow> nat" where
  "toTitleRune r = toUpperRune r"

text \<open>\<^verbatim>\<open>isSeparator\<close> of \<^verbatim>\<open>strings.Title\<close>: ASCII letters, digits and the underscore
  are no separators and every other ASCII character is; beyond ASCII the separators are
  the white space characters.\<close>

definition isSeparator :: "nat \<Rightarrow> bool" where
  "isSeparator r =
     (if r \<le> 127 then
        \<not> ((48 \<le> r \<and> r \<le> 57) \<or> (97 \<le> r \<and> r \<le> 122) \<or> (65 \<le> r \<and> r \<le> 90) \<or> r = 95)
      else r = 133 \<or> r = 160 \<or> r = 5760 \<or> (8192 \<le> r \<and> r \<le> 8202) \<or> r = 8232
           \<or> r = 8233 \<or> r = 8239 \<or> r = 8287 \<or> r = 12288)"

fun titleRunes :: "nat \<Rightarrow> nat list \<Rightarrow> nat list" where
  "titleRunes prev [] = []"
| "titleRunes prev (r # rs) =
     (if isSeparator prev then toTitleRune r else r) # titleRunes r rs"

definition ToLower :: "string \<Rightarrow> string" where
  "ToLower s = stringOf (map toLowerRune (runesOf s))"

definition ToTitle :: "string \<Rightarrow> string" where
  "ToTitle s = stringOf (map toTitleRune (runesOf s))"

definition Title :: "string \<Rightarrow> string" where
  "Title s = stringOf (titleRunes 32 (runesOf s))"

text \<open>\<^verbatim>\<open>common.CompareIgnoreCase\<close>: equality of the lower-cased strings.\<close>

definition CompareIgnoreCase :: "string \<Rightarrow> string \<Rightarrow> bool" where
  "CompareIgnoreCase s0 s1 = (ToLower s0 = ToLower s1)"

section \<open>The artifact materializer\<close>

text \<open>The loop of \<^verbatim>\<open>runUnzip\<close> over the members of the archive.\<close>

fun unzipEntries :: "string \<Rightarrow> zipentry list \<Rightarrow> fsys \<Rightarrow> error option \<times> fsys" where
  "unzipEntries path [] d = (None, d)"
| "unzipEntries path (f # fs) d =
     (let p = Join [path, zipName f] in
      case MkdirAll d (Dir p) of
        Inl err \<Rightarrow> (Some err, d)
      | Inr d1 \<Rightarrow>
          (case zipOpen f of
             Inl err \<Rightarrow> (Some err, d1)
           | Inr zipfile \<Rightarrow>
               if \<not> zipIsDir f then
                 (case FileStore d1 p zipfile None of
                    (Some err, d2) \<Rightarrow> (Some err, d2)
                  | (None, d2) \<Rightarrow> unzipEntries path fs d2)
               else unzipEntries path fs d1))"

definition runUnzip :: "env \<Rightarrow> string \<Rightarrow> string \<Rightarrow> state \<Rightarrow> error option \<times> state" where
  "runUnzip E filename path s =
     (case zipRead E (disk s) filename of
        Inl err \<Rightarrow> (Some err, s)
      | Inr r \<Rightarrow>
          (case unzipEntries path r (disk s) of (res, d) \<Rightarrow> (res, s\<lparr>disk := d\<rparr>)))"

definition runSelfextract :: "env \<Rightarrow> string \<Rightarrow> state \<Rightarrow> error option \<times> state" where
  "runSelfextract E filename s =
     (case execRun E (disk s) filename [''-y'', ''-o'' @ Dir filename] of
        (err, d) \<Rightarrow> (err, s\<lparr>disk := d\<rparr>))"

section \<open>Wait group, error aggregator, goroutines\<close>

definition wgAdd :: "state \<Rightarrow> state" where
  "wgAdd s = s\<lparr>wg := wg s + 1\<rparr>"

text \<open>\<^verbatim>\<open>wg.Done()\<close> lowers the counter. On a counter at zero it would panic; the program
  calls it only after the \<^verbatim>\<open>wg.Add(1)\<close> it belongs to (\<open>wg_never_negative\<close> below).\<close>

definition wgDone :: "state \<Rightarrow> state" where
  "wgDone s = s\<lparr>wg := wg s - 1\<rparr>"

text \<open>\<^verbatim>\<open>channelError.Add\<close>.\<close>

definition Add :: "error \<Rightarrow> state \<Rightarrow> state" where
  "Add err s = s\<lparr>errs := errs s @ [err]\<rparr>"

text \<open>The \<^verbatim>\<open>go\<close> statement: the goroutine joins those that have not run yet.\<close>

definition spawn :: "task \<Rightarrow> state \<Rightarrow> state" where
  "spawn t s = s\<lparr>pool := pool s @ [t]\<rparr>"

text \<open>\<^verbatim>\<open>runResource\<close>; \<^verbatim>\<open>defer wg.Done()\<close> runs on every way out.\<close>

definition runResource :: "env \<Rightarrow> string \<Rightarrow> string \<Rightarrow> bool \<Rightarrow> bool \<Rightarrow> state \<Rightarrow> state" where
  "runResource E url path doUnzip doExtract s =
     (case download E url path s of
        (Some err, s1) \<Rightarrow> wgDone (Add err s1)
      | (None, s1) \<Rightarrow>
          (let doUnzip' = (doUnzip \<or> HasSuffix path ''.zip'');
               doExtract' = (doExtract \<or> HasSuffix path ''.exe'')
           in case (if doUnzip' then runUnzip E path (Dir path) s1 else (None, s1)) of
                (Some err, s2) \<Rightarrow> wgDone (Add err s2)
              | (None, s2) \<Rightarrow>
                  if doExtract' then
                    (case runSelfextract E path s2 of
                       (Some err, s3) \<Rightarrow> wgDone (Add err s3)
                     | (None, s3) \<Rightarrow> wgDone s3)
                  else wgDone s2))"

section \<open>The resolution engine: \<^verbatim>\<open>runJnlp\<close>\<close>

text \<open>\<^verbatim>\<open>operatingsystem\<close>, as \<^verbatim>\<open>run\<close> sets it from \<^verbatim>\<open>runtime.GOOS\<close> before the first
  call of \<^verbatim>\<open>runJnlp\<close>; the \<^verbatim>\<open>switch\<close> has no default.\<close>

definition operatingsystem :: "config \<Rightarrow> string" where
  "operatingsystem C =
     (if GOOS C = ''linux'' then ToTitle ''Linux''
      else if GOOS C = ''windows'' then ToTitle ''Windows''
      else if GOOS C = ''darwin'' then ToTitle ''Mac OS X''
      else [])"

text \<open>The test \<^verbatim>\<open>(len(x.Arch) == 0 || CompareIgnoreCase(x.Arch, *arch)) &&
  (len(x.Os) == 0 || CompareIgnoreCase(x.Os, operatingsystem))\<close> that both loops of
  \<^verbatim>\<open>runJnlp\<close> make.\<close>

definition relevant :: "string \<Rightarrow> string \<Rightarrow> string \<Rightarrow> string \<Rightarrow> bool" where
  "relevant xArch xOs runArch runOs =
     ((length xArch = 0 \<or> CompareIgnoreCase xArch runArch)
      \<and> (length xOs = 0 \<or> CompareIgnoreCase xOs runOs))"

text \<open>A resource group: \<^verbatim>\<open>strings.Title\<close> on its \<^verbatim>\<open>arch\<close> and \<^verbatim>\<open>strings.ToTitle\<close> on
  its \<^verbatim>\<open>os\<close>, when not empty, and then the test.\<close>

definition resourceActive :: "Resource \<Rightarrow> string \<Rightarrow> string \<Rightarrow> bool" where
  "resourceActive resource runArch runOs =
     (let a = (if length (Arch resource) > 0 then Title (Arch resource) else Arch resource);
          os = (if length (Os resource) > 0 then ToTitle (Os resource) else Os resource)
      in relevant a os runArch runOs)"

text \<open>The cache paths: \<^verbatim>\<open>jnlpPath\<close>, \<^verbatim>\<open>appPath\<close>, the path of a jar, native library or
  extension, and the one of a private runtime.\<close>

definition jnlpPath :: "env \<Rightarrow> config \<Rightarrow> string \<Rightarrow> string" where
  "jnlpPath E C host = Join [cache C, Trim4Path E host]"

definition appPath :: "env \<Rightarrow> config \<Rightarrow> string \<Rightarrow> string" where
  "appPath E C host = Join [jnlpPath E C host, ''app'']"

definition jarPath :: "env \<Rightarrow> config \<Rightarrow> string \<Rightarrow> string \<Rightarrow> string" where
  "jarPath E C host href = Join [appPath E C host, href]"

definition jreFilename :: "string \<Rightarrow> string" where
  "jreFilename href =
     (let p = LastIndex href (CHR ''/'') in
      if p \<noteq> - 1 then drop (nat (p + 1)) href else href)"

definition jrePath :: "env \<Rightarrow> config \<Rightarrow> string \<Rightarrow> PrivateJre \<Rightarrow> string" where
  "jrePath E C host jre = Join [jnlpPath E C host, jreArch jre, jreFilename (jreHref jre)]"

text \<open>A loop of \<^verbatim>\<open>runJnlp\<close> either runs to its end or leaves the function with
  \<^verbatim>\<open>return nil\<close>.\<close>

datatype loopres = Abort state | Next state

text \<open>The loop over the jars of an active group. \<^verbatim>\<open>wg.Add(1)\<close> comes first, then the
  URL; where the URL does not parse the function returns with the counter raised.\<close>

fun jarLoop :: "env \<Rightarrow> config \<Rightarrow> string \<Rightarrow> string \<Rightarrow> string \<Rightarrow> Jar list \<Rightarrow> state \<Rightarrow> loopres" where
  "jarLoop E C a host codebase [] s = Next s"
| "jarLoop E C a host codebase (jar # rest) s =
     (let s1 = wgAdd s;
          path = jarPath E C host (jarHref jar)
      in case urlResolve E a (codebase @ ''/'' @ jarHref jar) of
           Inl err \<Rightarrow> Abort (Add err s1)
         | Inr url \<Rightarrow>
             (let s2 = s1\<lparr>jars := stringsJoin [jars s1, path] ListSeparator\<rparr>
              in jarLoop E C a host codebase rest
                   (spawn (ResourceTask url path False False) s2)))"

text \<open>The loop over the extensions; \<^verbatim>\<open>wg.Add(1)\<close> is commented out in the source.\<close>

fun extensionLoop :: "env \<Rightarrow> string \<Rightarrow> string \<Rightarrow> Extension list \<Rightarrow> state \<Rightarrow> loopres" where
  "extensionLoop E a codebase [] s = Next s"
| "extensionLoop E a codebase (extension # rest) s =
     (case urlResolve E a (codebase @ ''/'' @ extHref extension) of
        Inl err \<Rightarrow> Abort (Add err s)
      | Inr url \<Rightarrow> extensionLoop E a codebase rest (spawn (JnlpTask url False) s))"

fun nativelibLoop :: "env \<Rightarrow> config \<Rightarrow> string \<Rightarrow> string \<Rightarrow> string \<Rightarrow> Jar list \<Rightarrow> state \<Rightarrow> loopres" where
  "nativelibLoop E C a host codebase [] s = Next s"
| "nativelibLoop E C a host codebase (nativelib # rest) s =
     (let s1 = wgAdd s;
          path = jarPath E C host (jarHref nativelib)
      in case urlResolve E a (codebase @ ''/'' @ jarHref nativelib) of
           Inl err \<Rightarrow> Abort (Add err s1)
         | Inr url \<Rightarrow>
             (let s2 = s1\<lparr>nativelibs := stringsJoin [nativelibs s1, Dir path] ListSeparator\<rparr>
              in nativelibLoop E C a host codebase rest
                   (spawn (ResourceTask url path True False) s2)))"

text \<open>The block under \<^verbatim>\<open>if doHeader\<close> of a group: the last \<^verbatim>\<open>j2se\<close> element sets
  \<^verbatim>\<open>maxheapsize\<close>, and when that is empty the last \<^verbatim>\<open>java\<close> element does.\<close>

definition header :: "Resource \<Rightarrow> state \<Rightarrow> state" where
  "header resource s =
     (let s1 = foldl (\<lambda>t j2se. t\<lparr>maxheapsize := MaxHeapSize j2se\<rparr>) s (J2ses resource)
      in if length (maxheapsize s1) = 0
         then foldl (\<lambda>t java. t\<lparr>maxheapsize := MaxHeapSize java\<rparr>) s1 (Javas resource)
         else s1)"

fun resourceLoop ::
  "env \<Rightarrow> config \<Rightarrow> string \<Rightarrow> string \<Rightarrow> string \<Rightarrow> bool \<Rightarrow> Resource list \<Rightarrow> state \<Rightarrow> loopres" where
  "resourceLoop E C a host codebase doHeader [] s = Next s"
| "resourceLoop E C a host codebase doHeader (resource # rest) s =
     (if resourceActive resource (arch C) (operatingsystem C) then
        (case jarLoop E C a host codebase (Jars resource) s of
           Abort s1 \<Rightarrow> Abort s1
         | Next s1 \<Rightarrow>
             (case extensionLoop E a codebase (Extensions resource) s1 of
                Abort s2 \<Rightarrow> Abort s2
              | Next s2 \<Rightarrow>
                  (case nativelibLoop E C a host codebase (Nativelibs resource) s2 of
                     Abort s3 \<Rightarrow> Abort s3
                   | Next s3 \<Rightarrow>
                       resourceLoop E C a host codebase doHeader rest
                         (if doHeader then header resource s3 else s3))))
      else resourceLoop E C a host codebase doHeader rest s)"

text \<open>The loop over the private runtimes; \<^verbatim>\<open>runResource\<close> is called, not started
  with \<^verbatim>\<open>go\<close>.\<close>

fun jreLoop ::
  "env \<Rightarrow> config \<Rightarrow> string \<Rightarrow> string \<Rightarrow> string \<Rightarrow> bool \<Rightarrow> PrivateJre list \<Rightarrow> state \<Rightarrow> loopres" where
  "jreLoop E C a host codebase doHeader [] s = Next s"
| "jreLoop E C a host codebase doHeader (jre # rest) s =
     (if relevant (jreArch jre) (jreOs jre) (arch C) (operatingsystem C) then
        (let s1 = wgAdd s;
             path = jrePath E C host jre
         in case urlResolve E a (codebase @ ''/'' @ jreHref jre) of
              Inl err \<Rightarrow> Abort (Add err s1)
            | Inr url \<Rightarrow>
                (let s2 = (if doHeader
                           then s1\<lparr>jrepath := Join [Dir path, ''bin'', ''javaw'']\<rparr>
                           else s1)
                 in jreLoop E C a host codebase doHeader rest
                      (runResource E url path False True s2)))
      else jreLoop E C a host codebase doHeader rest s)"

text \<open>How a call ends: \<^verbatim>\<open>os.Exit\<close>, a run-time panic, or a return.\<close>

datatype 'a outcome = Exited state | Panicked state | Returned 'a state

text \<open>The two loops of \<^verbatim>\<open>runJnlp\<close>, over the resource groups and over the private
  runtimes, and its result: \<^verbatim>\<open>nil\<close> where a loop left with \<^verbatim>\<open>return nil\<close>, the
  descriptor otherwise.\<close>

definition walk ::
  "env \<Rightarrow> config \<Rightarrow> string \<Rightarrow> string \<Rightarrow> string \<Rightarrow> bool \<Rightarrow> Jnlp \<Rightarrow> state \<Rightarrow> Jnlp option outcome" where
  "walk E C a host codebase doHeader jnlp s =
     (case resourceLoop E C a host codebase doHeader (Resources jnlp) s of
        Abort s1 \<Rightarrow> Returned None s1
      | Next s1 \<Rightarrow>
          (case jreLoop E C a host codebase doHeader (PrivateJres jnlp) s1 of
             Abort s2 \<Rightarrow> Returned None s2
           | Next s2 \<Rightarrow> Returned (Some jnlp) s2))"

text \<open>\<^verbatim>\<open>runJnlp\<close>. Without a \<^verbatim>\<open>codebase\<close> attribute the codebase is
  \<^verbatim>\<open>address[:strings.LastIndex(address, "/")]\<close>, which panics when the address has
  no slash.\<close>

definition runJnlp :: "env \<Rightarrow> config \<Rightarrow> string \<Rightarrow> bool \<Rightarrow> state \<Rightarrow> Jnlp option outcome" where
  "runJnlp E C a doHeader s =
     (let s0 = s\<lparr>netlog := netlog s @ [GET a]\<rparr> in
      case httpGet E a of
        Inl err \<Rightarrow> Returned None (Add err s0)
      | Inr response \<Rightarrow>
          (case BodyErr response of
             Some err \<Rightarrow> Returned None (Add err s0)
           | None \<Rightarrow>
               if StatusCode response \<noteq> 200 then Exited s0
               else
                 (case urlHost E a of
                    Inl err \<Rightarrow> Returned None (Add err s0)
                  | Inr host \<Rightarrow>
                      (case decodeJnlp E (Body response) of
                         Inl err \<Rightarrow> Returned None (Add err s0)
                       | Inr jnlp \<Rightarrow>
                           if Codebase jnlp = [] \<and> LastIndex a (CHR ''/'') = - 1 then Panicked s0
                           else
                             walk E C a host
                               (if Codebase jnlp = []
                                then take (nat (LastIndex a (CHR ''/''))) a
                                else Codebase jnlp)
                               doHeader jnlp s0))))"

section \<open>\<^verbatim>\<open>run\<close> and the schedules of the program\<close>

text \<open>The package variables when \<^verbatim>\<open>run\<close> starts, the flags parsed.\<close>

definition initState :: "config \<Rightarrow> fsys \<Rightarrow> state" where
  "initState C d =
     \<lparr>jars = [], nativelibs = [], maxheapsize = [], jrepath = jreFlag C, wg = 0,
      errs = [], disk = d, netlog = [], pool = []\<rparr>"

text \<open>The arguments of the child process, as \<^verbatim>\<open>run\<close> collects them in \<^verbatim>\<open>cmds\<close>.\<close>

definition assemble :: "Jnlp \<Rightarrow> state \<Rightarrow> string list" where
  "assemble jnlp s =
     (if length (maxheapsize s) > 0 then [''-Xmx'' @ maxheapsize s] else [])
     @ (if nativelibs s \<noteq> [] then [''-Djava.library.path='' @ nativelibs s] else [])
     @ [''-cp'', jars s]
     @ (if appMainClass (ApplicationDesc jnlp) \<noteq> []
        then appMainClass (ApplicationDesc jnlp) # Arguments (ApplicationDesc jnlp)
        else appletMainClass (AppletDesc jnlp) # Params (AppletDesc jnlp))"

text \<open>Where the main goroutine stands: before \<^verbatim>\<open>run\<close>, in \<^verbatim>\<open>wg.Wait()\<close> holding the
  result of the root call, returned from \<^verbatim>\<open>run\<close> with its error and the process it
  started, or gone by \<^verbatim>\<open>os.Exit\<close> or by a panic. When \<^verbatim>\<open>run\<close> has returned the
  process ends, and the goroutines that have not run never do.\<close>

datatype phase =
    Start
  | Waiting "Jnlp option"
  | Finished "error option" "(string \<times> string list) option"
  | Killed
  | Crashed

text \<open>\<^verbatim>\<open>run\<close> up to \<^verbatim>\<open>wg.Wait()\<close>.\<close>

definition runBefore :: "env \<Rightarrow> config \<Rightarrow> state \<Rightarrow> phase \<times> state" where
  "runBefore E C s =
     (case FileExists (disk s) (cache C) of
        Inl err \<Rightarrow> (Finished (Some err) None, s)
      | Inr b \<Rightarrow>
          (case (if \<not> b then MkdirAll (disk s) (cache C) else Inr (disk s)) of
             Inl err \<Rightarrow> (Finished (Some err) None, s)
           | Inr d \<Rightarrow>
               (let s1 = s\<lparr>disk := d,
                          jrepath := (if length (jrepath s) = 0
                                      then (if GOOS C = ''windows'' then ''javaw'' else ''java'')
                                      else jrepath s)\<rparr>
                in case runJnlp E C (address C) True s1 of
                     Exited s2 \<Rightarrow> (Killed, s2)
                   | Panicked s2 \<Rightarrow> (Crashed, s2)
                   | Returned jnlp s2 \<Rightarrow> (Waiting jnlp, s2))))"

text \<open>\<^verbatim>\<open>run\<close> after \<^verbatim>\<open>wg.Wait()\<close>. Reading \<^verbatim>\<open>jnlp.ApplicationDesc\<close> through a nil
  pointer panics.\<close>

definition runAfter :: "env \<Rightarrow> Jnlp option \<Rightarrow> state \<Rightarrow> phase" where
  "runAfter E jnlp s =
     (if errs s \<noteq> [] then Finished (Some (hd (errs s))) None
      else (case jnlp of
              None \<Rightarrow> Crashed
            | Some j \<Rightarrow>
                Finished (startProcess E (jrepath s) (assemble j s))
                         (Some (jrepath s, assemble j s))))"

text \<open>A goroutine of the pool, run from its start to its end.\<close>

definition runTask :: "env \<Rightarrow> config \<Rightarrow> Jnlp option \<Rightarrow> task \<Rightarrow> state \<Rightarrow> phase \<times> state" where
  "runTask E C j t s =
     (case t of
        ResourceTask url path doUnzip doExtract \<Rightarrow>
          (Waiting j, runResource E url path doUnzip doExtract s)
      | JnlpTask a doHeader \<Rightarrow>
          (case runJnlp E C a doHeader s of
             Exited s' \<Rightarrow> (Killed, s')
           | Panicked s' \<Rightarrow> (Crashed, s')
           | Returned r s' \<Rightarrow> (Waiting j, s')))"

text \<open>
  A schedule is the list of the scheduler's choices: the main goroutine, or the
  goroutine at a position of the pool. The main goroutine leaves \<^verbatim>\<open>wg.Wait()\<close> only
  when the counter is zero; a choice that cannot run leaves everything as it is. Each
  goroutine runs as a whole, so the schedules here are some of those of the Go
  scheduler, not all.
\<close>

datatype choice = Main | Go nat

fun sched :: "env \<Rightarrow> config \<Rightarrow> choice \<Rightarrow> phase \<times> state \<Rightarrow> phase \<times> state" where
  "sched E C Main (Start, s) = runBefore E C s"
| "sched E C Main (Waiting j, s) = (if wg s = 0 then (runAfter E j s, s) else (Waiting j, s))"
| "sched E C (Go i) (Waiting j, s) =
     (if i < length (pool s)
      then runTask E C j (pool s ! i) (s\<lparr>pool := take i (pool s) @ drop (Suc i) (pool s)\<rparr>)
      else (Waiting j, s))"
| "sched E C c (ph, s) = (ph, s)"

fun exec :: "env \<Rightarrow> config \<Rightarrow> choice list \<Rightarrow> phase \<times> state \<Rightarrow> phase \<times> state" where
  "exec E C [] c = c"
| "exec E C (ch # chs) c = exec E C chs (sched E C ch c)"

section \<open>Notions used in the statements\<close>

text \<open>The requests a call added to the log.\<close>

definition newOps :: "state \<Rightarrow> state \<Rightarrow> netop list" where
  "newOps s s' = drop (length (netlog s)) (netlog s')"



text \<open>From \<open>s\<close> to \<open>s'\<close> errors were only added and goroutines only started.\<close>

definition grows :: "state \<Rightarrow> state \<Rightarrow> bool" where
  "grows s s' =
     (take (length (errs s)) (errs s') = errs s \<and> take (length (pool s)) (pool s') = pool s)"

text \<open>A goroutine other than a resolution with \<^verbatim>\<open>doHeader\<close> set.\<close>

fun nested :: "task \<Rightarrow> bool" where
  "nested (ResourceTask url path doUnzip doExtract) = True"
| "nested (JnlpTask a doHeader) = (\<not> doHeader)"

definition isASCII :: "string \<Rightarrow> bool" where
  "isASCII s = list_all (\<lambda>c. (of_char c :: nat) < 128) s"

text \<open>The platform filter in the words of the specification: a group is active iff
  its \<^verbatim>\<open>os\<close> filter is empty or equal to the running one without regard to case, and
  the same for its \<^verbatim>\<open>arch\<close> filter. The attributes are taken as the descriptor has
  them.\<close>

definition specActive :: "string \<Rightarrow> string \<Rightarrow> string \<Rightarrow> string \<Rightarrow> bool" where
  "specActive filterOs filterArch runtimeOs runtimeArch =
     ((filterOs = [] \<or> CompareIgnoreCase filterOs runtimeOs)
      \<and> (filterArch = [] \<or> CompareIgnoreCase filterArch runtimeArch))"

section \<open>A small world for concrete runs\<close>

text \<open>One host, \<^verbatim>\<open>h\<close>, with its descriptors, jars and a runtime package; an empty
  disk; a Linux machine with the cache in \<^verbatim>\<open>/c\<close>.\<close>

definition ok :: "string \<Rightarrow> string \<Rightarrow> response" where
  "ok len body = \<lparr>StatusCode = 200, ContentLength = len, Body = body, BodyErr = None\<rparr>"

definition exServer :: "string \<Rightarrow> error + response" where
  "exServer u =
     (if u = ''http://h/app/launch.jnlp'' then Inr (ok ''8'' ''with-jar'')
      else if u = ''http://h/app/outer.jnlp'' then Inr (ok ''8'' ''with-ext'')
      else if u = ''http://h/app/ext.jnlp'' then Inr (ok ''5'' ''inner'')
      else if u = ''http://h/app/both.jnlp'' then Inr (ok ''4'' ''both'')
      else if u = ''http://h/app/gone.jnlp''
        then Inr \<lparr>StatusCode = 404, ContentLength = ''9'', Body = ''Not Found'', BodyErr = None\<rparr>
      else if u = ''http://h/app/heap.jnlp'' then Inr (ok ''4'' ''heap'')
      else if u = ''http://h/app/greedy.jnlp'' then Inr (ok ''6'' ''greedy'')
      else if u = ''http://h/app/badhref.jnlp'' then Inr (ok ''7'' ''badhref'')
      else if u = ''http://h/app/jreonly.jnlp'' then Inr (ok ''7'' ''jreonly'')
      else if u = ''http://h/app/jre/jre.exe'' then Inr (ok ''6'' ''jrebin'')
      else if u = ''http://h/app/x.jar'' then Inr (ok ''3'' ''abc'')
      else if u = ''http://h/app/y.jar'' then Inr (ok ''4'' ''defg'')
      else if u = ''http://h/app/z.jar'' then Inr (ok [] ''chunked'')
      else Inl (NetError u))"

definition exGroup :: "Jar list \<Rightarrow> Extension list \<Rightarrow> Resource" where
  "exGroup js es =
     \<lparr>J2ses = [], Javas = [], Os = [], Arch = [], Jars = js, Nativelibs = [], Extensions = es\<rparr>"

definition exJnlp :: "Jar list \<Rightarrow> Extension list \<Rightarrow> Jnlp" where
  "exJnlp js es =
     \<lparr>Codebase = ''http://h/app'', Resources = [exGroup js es], PrivateJres = [],
      ApplicationDesc = \<lparr>appMainClass = ''Main'', Arguments = []\<rparr>,
      AppletDesc = \<lparr>appletMainClass = [], Params = []\<rparr>\<rparr>"

text \<open>A descriptor whose only group asks for a heap of the given size and names the
  given extensions.\<close>

definition heapJnlp :: "string \<Rightarrow> Extension list \<Rightarrow> Jnlp" where
  "heapJnlp heap es =
     (exJnlp [] [])\<lparr>Resources :=
        [(exGroup [] es)\<lparr>J2ses := [\<lparr>j2seHref = [], Version = ''1.8'', MaxHeapSize = heap\<rparr>]\<rparr>]\<rparr>"

text \<open>A descriptor without any resource group and with one private runtime, for every
  platform.\<close>

definition jreOnlyJnlp :: Jnlp where
  "jreOnlyJnlp =
     (exJnlp [] [])\<lparr>Resources := [],
        PrivateJres := [\<lparr>jreOs = [], jreArch = [], jreHref = ''jre/jre.exe''\<rparr>]\<rparr>"

definition exDecode :: "string \<Rightarrow> error + Jnlp" where
  "exDecode b =
     (if b = ''with-jar'' then Inr (exJnlp [\<lparr>jarHref = ''x.jar''\<rparr>] [])
      else if b = ''with-ext'' then Inr (exJnlp [] [\<lparr>extHref = ''ext.jnlp''\<rparr>])
      else if b = ''inner'' then Inr (exJnlp [\<lparr>jarHref = ''y.jar''\<rparr>] [])
      else if b = ''heap'' then Inr (heapJnlp ''512m'' [\<lparr>extHref = ''greedy.jnlp''\<rparr>])
      else if b = ''greedy'' then Inr (heapJnlp ''64m'' [])
      else if b = ''badhref'' then Inr (exJnlp [\<lparr>jarHref = ''%zz''\<rparr>] [])
      else if b = ''jreonly'' then Inr jreOnlyJnlp
      else if b = ''both'' then Inr (exJnlp [\<lparr>jarHref = ''x.jar''\<rparr>] [\<lparr>extHref = ''gone.jnlp''\<rparr>])
      else Inl (XmlError b))"

text \<open>Every reference of these descriptors is an absolute URL, which resolves to
  itself, but for \<^verbatim>\<open>%zz\<close>, which is no valid escape and does not parse; the host name
  needs no trimming.\<close>

definition exEnv :: env where
  "exEnv =
     \<lparr>httpGet = exServer, httpHead = exServer,
      urlHost = (\<lambda>a. Inr ''h''), urlResolve = (\<lambda>a r. if r = ''http://h/app/%zz'' then Inl (UrlError r) else Inr r),
      decodeJnlp = exDecode,
      zipRead = (\<lambda>d f. Inl (ZipError f)),
      execRun = (\<lambda>d f args. (Some (ExecError f), d)),
      startProcess = (\<lambda>p args. None),
      Trim4Path = (\<lambda>h. h)\<rparr>"

definition exConfig :: "string \<Rightarrow> config" where
  "exConfig a = \<lparr>address = a, jreFlag = [], arch = ''amd64'', cache = ''/c'', GOOS = ''linux''\<rparr>"

definition exDisk :: fsys where
  "exDisk =
     \<lparr>files = Map.empty, dirs = {''/c''}, stat_fails = {}, mkdir_fails = {}, write_fails = {},
      dir_size = 4096\<rparr>"

text \<open>The disk with one cached file, and the state of a fresh run on it.\<close>

definition cachedDisk :: "string \<Rightarrow> string \<Rightarrow> fsys" where
  "cachedDisk p c = exDisk\<lparr>files := [p \<mapsto> c]\<rparr>"

definition cachedState :: "string \<Rightarrow> string \<Rightarrow> state" where
  "cachedState p c = initState (exConfig ''http://h/app/launch.jnlp'') (cachedDisk p c)"

text \<open>The same disk when the stat of the cached file fails.\<close>

definition unreadableState :: "string \<Rightarrow> state" where
  "unreadableState p =
     initState (exConfig ''http://h/app/launch.jnlp'') (exDisk\<lparr>stat_fails := {p}\<rparr>)"

text \<open>
  The state in which the root call on \<^verbatim>\<open>badhref.jnlp\<close> leaves a fresh run: the
  descriptor has been fetched, the jar has been registered with \<^verbatim>\<open>wg.Add(1)\<close>, its
  href has not parsed, the error is recorded and no goroutine has been started.
\<close>

definition blockedState :: state where
  "blockedState =
     (initState (exConfig ''http://h/app/badhref.jnlp'') exDisk)
       \<lparr>jrepath := ''java'', wg := 1, errs := [UrlError ''http://h/app/%zz''],
        netlog := [GET ''http://h/app/badhref.jnlp'']\<rparr>"

text \<open>A descriptor with both launch blocks filled in.\<close>

definition bothBlocks :: Jnlp where
  "bothBlocks =
     (exJnlp [] [])\<lparr>ApplicationDesc := \<lparr>appMainClass = ''Main'', Arguments = [''a1'', ''a2'']\<rparr>,
                    AppletDesc := \<lparr>appletMainClass = ''Applet'', Params = [''p1'']\<rparr>\<rparr>"

text \<open>The state a call leaves behind, however it ends.\<close>

fun final :: "'a outcome \<Rightarrow> state" where
  "final (Exited s) = s"
| "final (Panicked s) = s"
| "final (Returned r s) = s"

text \<open>The state a loop leaves behind.\<close>

fun lstate :: "loopres \<Rightarrow> state" where
  "lstate (Abort s) = s"
| "lstate (Next s) = s"

text \<open>Two relations between the state before and after a piece of code: errors were
  only added and the goroutines started are all nested ones; the heap hint and the
  path of the runtime are as before.\<close>

definition extends :: "state \<Rightarrow> state \<Rightarrow> bool" where
  "extends s s' =
     (\<exists>es ts. errs s' = errs s @ es \<and> pool s' = pool s @ ts \<and> list_all nested ts)"

definition keeps :: "state \<Rightarrow> state \<Rightarrow> bool" where
  "keeps s s' = (maxheapsize s' = maxheapsize s \<and> jrepath s' = jrepath s)"

text \<open>Only the disk and the log of requests may differ.\<close>

definition ioOnly :: "state \<Rightarrow> state \<Rightarrow> bool" where
  "ioOnly s s' =
     (jars s' = jars s \<and> nativelibs s' = nativelibs s \<and> maxheapsize s' = maxheapsize s
      \<and> jrepath s' = jrepath s \<and> wg s' = wg s \<and> errs s' = errs s \<and> pool s' = pool s)"

text \<open>The descriptor at an address cannot be had: the request fails, the body breaks
  off, the address does not parse, or the document does not decode.\<close>

definition unreadable :: "env \<Rightarrow> string \<Rightarrow> bool" where
  "unreadable E a =
     (case httpGet E a of
        Inl err \<Rightarrow> True
      | Inr response \<Rightarrow>
          BodyErr response \<noteq> None
          \<or> (case urlHost E a of
                Inl err \<Rightarrow> True
              | Inr host \<Rightarrow>
                  (case decodeJnlp E (Body response) of Inl err \<Rightarrow> True | Inr j \<Rightarrow> False)))"

text \<open>Where the program can be once the root call has returned \<^verbatim>\<open>nil\<close>: waiting with
  that result, gone, or returned from \<^verbatim>\<open>run\<close> with the first recorded error and no
  child process; and an error is recorded.\<close>

fun afterNil :: "phase \<times> state \<Rightarrow> bool" where
  "afterNil (Start, s) = False"
| "afterNil (Waiting j, s) = (j = None \<and> errs s \<noteq> [])"
| "afterNil (Finished r cmd, s) = (r = Some (hd (errs s)) \<and> cmd = None \<and> errs s \<noteq> [])"
| "afterNil (Killed, s) = (errs s \<noteq> [])"
| "afterNil (Crashed, s) = (errs s \<noteq> [])"

text \<open>The word \<^verbatim>\<open>linux\<close> written with a dotless i (U+0131, in UTF-8 the bytes C4 B1).\<close>

definition dotlessLinux :: string where
  "dotlessLinux = [CHR ''l'', CHR 0xC4, CHR 0xB1, CHR ''n'', CHR ''u'', CHR ''x'']"

section \<open>Notions used in the proofs about paths\<close>







text \<open>An artifact task, and the states in which the wait group counts every artifact
  task that has not run. \<^verbatim>\<open>wg.Done()\<close> on a counter at zero would panic; in these
  states it cannot come to that.\<close>

fun artifact :: "task \<Rightarrow> bool" where
  "artifact (ResourceTask url path doUnzip doExtract) = True"
| "artifact (JnlpTask a doHeader) = False"

definition covered :: "state \<Rightarrow> bool" where
  "covered s = (int (length (filter artifact (pool s))) \<le> wg s)"

text \<open>The error that keeps a resolution from having its descriptor, if there is one:
  of the request, of reading the body, of parsing the address, of decoding. A status
  other than 200 is none of them.\<close>

definition descriptorError :: "env \<Rightarrow> string \<Rightarrow> error option" where
  "descriptorError E a =
     (case httpGet E a of
        Inl err \<Rightarrow> Some err
      | Inr response \<Rightarrow>
          (case BodyErr response of
             Some err \<Rightarrow> Some err
           | None \<Rightarrow>
               if StatusCode response \<noteq> 200 then None
               else
                 (case urlHost E a of
                    Inl err \<Rightarrow> Some err
                  | Inr host \<Rightarrow>
                      (case decodeJnlp E (Body response) of
                         Inl err \<Rightarrow> Some err
                       | Inr j \<Rightarrow> None))))"


text \<open>A group for Windows only that asks for a small heap, and one for every platform
  that asks for a large one.\<close>

definition windowsGroup :: Resource where
  "windowsGroup =
     (exGroup [] [])\<lparr>Os := ''Windows'',
        J2ses := [\<lparr>j2seHref = [], Version = ''1.8'', MaxHeapSize = ''64m''\<rparr>]\<rparr>"

definition largeGroup :: Resource where
  "largeGroup =
     (exGroup [] [])\<lparr>J2ses := [\<lparr>j2seHref = [], Version = ''1.8'', MaxHeapSize = ''512m''\<rparr>]\<rparr>"

text \<open>The unpacking step of \<^verbatim>\<open>runResource\<close>, taken when the caller asks for it or the
  path ends in \<^verbatim>\<open>.zip\<close>, and its self-extraction step, taken when the caller asks for
  it or the path ends in \<^verbatim>\<open>.exe\<close>.\<close>

definition unpacked :: "env \<Rightarrow> string \<Rightarrow> bool \<Rightarrow> state \<Rightarrow> error option \<times> state" where
  "unpacked E path doUnzip s =
     (if doUnzip \<or> HasSuffix path ''.zip'' then runUnzip E path (Dir path) s else (None, s))"

definition extracted :: "env \<Rightarrow> string \<Rightarrow> bool \<Rightarrow> state \<Rightarrow> error option \<times> state" where
  "extracted E path doExtract s =
     (if doExtract \<or> HasSuffix path ''.exe'' then runSelfextract E path s else (None, s))"

section \<open>Facts about the concrete world\<close>

lemmas ex_defs =
  exEnv_def exConfig_def exDisk_def exServer_def exDecode_def exJnlp_def heapJnlp_def
  jreOnlyJnlp_def
  exGroup_def ok_def

lemmas path_defs =
  Join_def Clean_def render_def isRooted_def Dir_def jarPath_def appPath_def jnlpPath_def

lemmas file_defs = FileExists_def FileSize_def MkdirAll_def FileStore_def

section \<open>The cache reconciler\<close>

lemma dirChain_self: "p \<in> set (dirChain n p)"
  by (cases n) simp_all

lemma MkdirAll_dirs: "MkdirAll d p = Inr d' \<Longrightarrow> p \<in> dirs d'"
  by (auto simp: MkdirAll_def dirChain_self split: if_splits)

lemma FileStore_ok:
  "FileStore d p c e = (None, d') \<Longrightarrow> e = None \<and> files d' p = Some c \<and> dirs d' = dirs d"
  by (auto simp: FileStore_def split: if_splits)

lemma probe_netlog: "netlog (snd (probe E h f s)) = netlog s @ [HEAD h]"
  by (simp add: probe_def Let_def split: sum.splits)

lemma probe_disk: "disk (snd (probe E h f s)) = disk s"
  by (simp add: probe_def Let_def split: sum.splits)

lemma probe_result:
  "fst (probe E h f s) = Inr m \<longleftrightarrow>
     (\<exists>resp sz. httpHead E h = Inr resp \<and> FileSize (disk s) f = Inr sz
        \<and> m = (sz \<noteq> ParseInt (ContentLength resp)))"
  by (auto simp add: probe_def Let_def split: sum.splits)

lemma fetch_netlog: "netlog (snd (fetch E h f s)) = netlog s @ [GET h]"
  by (simp add: fetch_def Let_def split: sum.splits prod.splits)

lemma fetch_ok:
  assumes "fetch E h f s = (None, s')"
  shows "\<exists>resp. httpGet E h = Inr resp \<and> BodyErr resp = None
           \<and> files (disk s') f = Some (Body resp) \<and> Dir f \<in> dirs (disk s')"
proof -
  from assms obtain resp d d' where g: "httpGet E h = Inr resp"
    and m: "MkdirAll (disk s) (Dir f) = Inr d"
    and st: "FileStore d f (Body resp) (BodyErr resp) = (None, d')"
    and s': "disk s' = d'"
    by (auto simp: fetch_def Let_def split: sum.splits prod.splits)
  from MkdirAll_dirs [OF m] FileStore_ok [OF st] g s' show ?thesis by auto
qed

text \<open>The requests of a call whose existence check succeeded.\<close>

lemma download_newOps:
  assumes "FileExists (disk s) f = Inr b"
  shows "newOps s (snd (download E h f s)) =
           (if b then
              (if fst (probe E h f s) = Inr True then [HEAD h, GET h] else [HEAD h])
            else [GET h])"
proof (cases b)
  case False
  with assms show ?thesis
    by (simp add: download_def newOps_def fetch_netlog)
next
  case True
  obtain r s1 where p: "probe E h f s = (r, s1)" by (cases "probe E h f s")
  have n1: "netlog s1 = netlog s @ [HEAD h]" using probe_netlog [of E h f s] p by simp
  show ?thesis
  proof (cases r)
    case (Inl e)
    with assms True p n1 show ?thesis by (simp add: download_def newOps_def)
  next
    case (Inr m)
    with assms True p n1 fetch_netlog [of E h f s1] show ?thesis
      by (cases m) (simp_all add: download_def newOps_def)
  qed
qed

lemma download_fetched:
  assumes "FileExists (disk s) f = Inr b" and "download E h f s = (None, s')"
    and "GET h \<in> set (newOps s s')"
  shows "\<exists>resp. httpGet E h = Inr resp \<and> BodyErr resp = None
           \<and> files (disk s') f = Some (Body resp) \<and> Dir f \<in> dirs (disk s')"
proof -
  obtain r s1 where p: "(if b then probe E h f s else (Inr True, s)) = (r, s1)"
    by (cases "if b then probe E h f s else (Inr True, s)")
  from assms(1,2) p have "r = Inr True \<or> (r = Inr False \<and> s' = s1)"
    by (cases r) (auto simp: download_def split: if_splits)
  moreover have "\<not> (r = Inr False \<and> s' = s1)"
  proof
    assume a: "r = Inr False \<and> s' = s1"
    with p have b and "probe E h f s = (Inr False, s')" by (auto split: if_splits)
    with download_newOps [OF assms(1), of E h] assms(2,3) show False by simp
  qed
  ultimately have "r = Inr True" by simp
  with assms(1,2) p have "fetch E h f s1 = (None, s')" by (simp add: download_def)
  from fetch_ok [OF this] show ?thesis .
qed

lemma download_skipped:
  assumes "FileExists (disk s) f = Inr b" and "download E h f s = (None, s')"
    and "GET h \<notin> set (newOps s s')"
  shows "disk s' = disk s \<and> (\<exists>resp. httpHead E h = Inr resp
           \<and> FileSize (disk s') f = Inr (ParseInt (ContentLength resp)))"
proof -
  from download_newOps [OF assms(1), of E h] assms(2,3)
  have b: b and nt: "fst (probe E h f s) \<noteq> Inr True" by (auto split: if_splits)
  obtain r s1 where p: "probe E h f s = (r, s1)" by (cases "probe E h f s")
  from assms(1,2) b p nt have r: "r = Inr False" and s1: "s1 = s'"
    by (cases r; auto simp: download_def split: if_splits)+
  from p r have "fst (probe E h f s) = Inr False" by simp
  then obtain resp sz where "httpHead E h = Inr resp" "FileSize (disk s) f = Inr sz"
    "sz = ParseInt (ContentLength resp)"
    unfolding probe_result by auto
  moreover from probe_disk [of E h f s] p s1 have "disk s' = disk s" by simp
  ultimately show ?thesis by auto
qed

text \<open>
  \<^bold>\<open>C3\<close>, as the code has it. When the existence check of the cached file succeeds, the body
  is requested iff the file is absent or its size differs from the declared content
  length (the header of the metadata-only request, read as a number); a call that
  returns no error and requested the body has created the parent directory and left the
  received body in the file; a call that returns no error and requested no body has left
  the disk as it was, with the file's size equal to the declared length. The size of a
  fetched file is the size of the body that arrived: the code does not compare it with
  the declared length.
\<close>

theorem download_reconciles:
  assumes "FileExists (disk s) f = Inr b" and "download E h f s = (r, s')"
  shows "(GET h \<in> set (newOps s s') \<longleftrightarrow>
            (\<not> b \<or> (\<exists>resp sz. httpHead E h = Inr resp \<and> FileSize (disk s) f = Inr sz
                      \<and> sz \<noteq> ParseInt (ContentLength resp))))
         \<and> (r = None \<and> GET h \<in> set (newOps s s') \<longrightarrow>
              (\<exists>resp. httpGet E h = Inr resp \<and> files (disk s') f = Some (Body resp)
                 \<and> Dir f \<in> dirs (disk s')))
         \<and> (r = None \<and> GET h \<notin> set (newOps s s') \<longrightarrow>
              disk s' = disk s \<and> (\<exists>resp. httpHead E h = Inr resp
                 \<and> FileSize (disk s') f = Inr (ParseInt (ContentLength resp))))"
proof (intro conjI impI)
  from download_newOps [OF assms(1), of E h] assms(2)
  show "GET h \<in> set (newOps s s') \<longleftrightarrow>
          (\<not> b \<or> (\<exists>resp sz. httpHead E h = Inr resp \<and> FileSize (disk s) f = Inr sz
                    \<and> sz \<noteq> ParseInt (ContentLength resp)))"
    by (auto simp: probe_result)
next
  assume "r = None \<and> GET h \<in> set (newOps s s')"
  with download_fetched [OF assms(1), of E h s'] assms(2)
  show "\<exists>resp. httpGet E h = Inr resp \<and> files (disk s') f = Some (Body resp)
          \<and> Dir f \<in> dirs (disk s')"
    by auto
next
  assume a: "r = None \<and> GET h \<notin> set (newOps s s')"
  with download_skipped [OF assms(1), of E h s'] assms(2)
  show "disk s' = disk s" by auto
next
  assume a: "r = None \<and> GET h \<notin> set (newOps s s')"
  with download_skipped [OF assms(1), of E h s'] assms(2)
  show "\<exists>resp. httpHead E h = Inr resp
          \<and> FileSize (disk s') f = Inr (ParseInt (ContentLength resp))"
    by auto
qed

lemmas dl_defs =
  download_def probe_def fetch_def file_defs ParseInt_def initState_def Let_def
  cachedState_def cachedDisk_def unreadableState_def newOps_def

theorem download_reconciles_witness:
  "FileExists (disk (cachedState ''/c/h/app/x.jar'' ''stale'')) ''/c/h/app/x.jar'' = Inr True
   \<and> fst (download exEnv ''http://h/app/x.jar'' ''/c/h/app/x.jar''
             (cachedState ''/c/h/app/x.jar'' ''stale'')) = None
   \<and> GET ''http://h/app/x.jar'' \<in> set (newOps (cachedState ''/c/h/app/x.jar'' ''stale'')
        (snd (download exEnv ''http://h/app/x.jar'' ''/c/h/app/x.jar''
                (cachedState ''/c/h/app/x.jar'' ''stale''))))
   \<and> files (disk (snd (download exEnv ''http://h/app/x.jar'' ''/c/h/app/x.jar''
        (cachedState ''/c/h/app/x.jar'' ''stale'')))) ''/c/h/app/x.jar'' = Some ''abc''"
proof -
  let ?s = "cachedState ''/c/h/app/x.jar'' ''stale''"
  let ?d = "download exEnv ''http://h/app/x.jar'' ''/c/h/app/x.jar'' ?s"
  have h1: "FileExists (disk ?s) ''/c/h/app/x.jar'' = Inr True"
    by (simp add: dl_defs ex_defs)
  have h2: "?d = (fst ?d, snd ?d)" by simp
  have h3: "fst ?d = None"
    by (simp add: dl_defs ex_defs path_defs)
  have h4: "httpGet exEnv ''http://h/app/x.jar'' = Inr (ok ''3'' ''abc'')"
    by (simp add: ex_defs)
  have h5: "httpHead exEnv ''http://h/app/x.jar'' = Inr (ok ''3'' ''abc'')
      \<and> FileSize (disk ?s) ''/c/h/app/x.jar'' = Inr 5
      \<and> 5 \<noteq> ParseInt (ContentLength (ok ''3'' ''abc''))"
    by (simp add: dl_defs ex_defs)
  note T = download_reconciles [OF h1 h2]
  from T h5 have g: "GET ''http://h/app/x.jar'' \<in> set (newOps ?s (snd ?d))" by blast
  with T h3 obtain resp where "httpGet exEnv ''http://h/app/x.jar'' = Inr resp"
    and "files (disk (snd ?d)) ''/c/h/app/x.jar'' = Some (Body resp)" by blast
  with h4 have "files (disk (snd ?d)) ''/c/h/app/x.jar'' = Some ''abc''" by (simp add: ok_def)
  with h1 h3 g show ?thesis by simp
qed

text \<open>
  The claim as it stands fails where the server's answer to the metadata-only request
  and the body it sends disagree. \<^verbatim>\<open>z.jar\<close> is answered without a \<^verbatim>\<open>Content-Length\<close>
  header, which the code reads as 0; the cached copy has 3 bytes, so the body is
  fetched; the call returns no error and leaves a file of 7 bytes.
\<close>

theorem download_length_counterexample:
  "FileExists (disk (cachedState ''/c/h/app/z.jar'' ''old'')) ''/c/h/app/z.jar'' = Inr True
   \<and> httpHead exEnv ''http://h/app/z.jar'' = Inr (ok [] ''chunked'')
   \<and> ParseInt (ContentLength (ok [] ''chunked'')) = 0
   \<and> fst (download exEnv ''http://h/app/z.jar'' ''/c/h/app/z.jar''
             (cachedState ''/c/h/app/z.jar'' ''old'')) = None
   \<and> FileSize (disk (snd (download exEnv ''http://h/app/z.jar'' ''/c/h/app/z.jar''
        (cachedState ''/c/h/app/z.jar'' ''old'')))) ''/c/h/app/z.jar'' = Inr 7"
  by (simp add: dl_defs ex_defs path_defs)

text \<open>
  \<^bold>\<open>C4\<close> asks that a failure of the existence check of the cached file reaches the caller
  as an error. The code returns \<^verbatim>\<open>nil\<close> there: the call succeeds, sends no request and
  leaves the disk as it is.
\<close>

theorem download_stat_failure_is_success:
  "FileExists (disk s) filename = Inl err \<Longrightarrow>
     download E href filename s = (None, s) \<and> newOps s (snd (download E href filename s)) = []"
  by (simp add: download_def newOps_def)

theorem download_stat_failure_is_success_witness:
  "FileExists (disk (unreadableState ''/c/h/app/x.jar'')) ''/c/h/app/x.jar''
     = Inl (FsError ''/c/h/app/x.jar'')
   \<and> download exEnv ''http://h/app/x.jar'' ''/c/h/app/x.jar'' (unreadableState ''/c/h/app/x.jar'')
       = (None, unreadableState ''/c/h/app/x.jar'')
   \<and> files (disk (unreadableState ''/c/h/app/x.jar'')) ''/c/h/app/x.jar'' = None"
proof -
  have h: "FileExists (disk (unreadableState ''/c/h/app/x.jar'')) ''/c/h/app/x.jar''
             = Inl (FsError ''/c/h/app/x.jar'')"
    by (simp add: dl_defs ex_defs)
  from download_stat_failure_is_success [OF h, of exEnv "''http://h/app/x.jar''"] h
  show ?thesis
    by (simp add: dl_defs ex_defs)
qed

section \<open>Concrete runs\<close>

lemma nofilter_active: "Os r = [] \<Longrightarrow> Arch r = [] \<Longrightarrow> resourceActive r a os"
  by (simp add: resourceActive_def relevant_def)

lemmas run_defs =
  runBefore_def runAfter_def runTask_def runJnlp_def walk_def runResource_def header_def
  assemble_def wgAdd_def wgDone_def Add_def spawn_def ListSeparator_def stringsJoin.simps
  HasSuffix_def LastIndex_def

text \<open>
  \<^bold>\<open>C2\<close>, the scenario of the specification: codebase \<^verbatim>\<open>http://h/app\<close>, one active jar
  \<^verbatim>\<open>x.jar\<close>, no private runtime, no heap hint, cache root \<^verbatim>\<open>/c\<close>, on Linux. The root
  call, then the fetch of the jar, then the join. The accumulator starts empty and
  \<^verbatim>\<open>strings.Join([]string{jars, jar.Path}, ":")\<close> puts the separator before the first
  path: the class path is \<^verbatim>\<open>:/c/h/app/x.jar\<close>, not \<^verbatim>\<open>/c/h/app/x.jar\<close>, and so is the
  argument after \<^verbatim>\<open>-cp\<close>.
\<close>

theorem scenario_classpath_leading_separator:
  "fst (exec exEnv (exConfig ''http://h/app/launch.jnlp'') [Main, Go 0, Main]
      (Start, initState (exConfig ''http://h/app/launch.jnlp'') exDisk))
     = Finished None (Some (''java'', [''-cp'', '':/c/h/app/x.jar'', ''Main'']))
   \<and> jars (snd (exec exEnv (exConfig ''http://h/app/launch.jnlp'') [Main, Go 0, Main]
      (Start, initState (exConfig ''http://h/app/launch.jnlp'') exDisk))) = '':/c/h/app/x.jar''
   \<and> files (disk (snd (exec exEnv (exConfig ''http://h/app/launch.jnlp'') [Main, Go 0, Main]
      (Start, initState (exConfig ''http://h/app/launch.jnlp'') exDisk)))) ''/c/h/app/x.jar''
     = Some ''abc''"
  by (simp add: run_defs dl_defs ex_defs path_defs nofilter_active)

text \<open>
  \<^bold>\<open>C1\<close>, join completeness. The root descriptor \<^verbatim>\<open>outer.jnlp\<close> has one active group with
  one extension, \<^verbatim>\<open>ext.jnlp\<close>, whose descriptor has the jar \<^verbatim>\<open>y.jar\<close>. The extension is
  started with \<^verbatim>\<open>go\<close> and the wait group is not told. In the schedule where the main
  goroutine runs on at once, \<^verbatim>\<open>wg.Wait()\<close> finds the counter at zero, \<^verbatim>\<open>run\<close> starts the
  child process and returns: the extension has not been fetched, its jar is not on the
  disk and not on the class path, and no error is recorded. In the schedule where the
  two goroutines run first, the jar is fetched.
\<close>

theorem join_returns_before_extension:
  "fst (exec exEnv (exConfig ''http://h/app/outer.jnlp'') [Main, Main]
      (Start, initState (exConfig ''http://h/app/outer.jnlp'') exDisk))
     = Finished None (Some (''java'', [''-cp'', [], ''Main'']))
   \<and> pool (snd (exec exEnv (exConfig ''http://h/app/outer.jnlp'') [Main, Main]
      (Start, initState (exConfig ''http://h/app/outer.jnlp'') exDisk)))
     = [JnlpTask ''http://h/app/ext.jnlp'' False]
   \<and> errs (snd (exec exEnv (exConfig ''http://h/app/outer.jnlp'') [Main, Main]
      (Start, initState (exConfig ''http://h/app/outer.jnlp'') exDisk))) = []
   \<and> files (disk (snd (exec exEnv (exConfig ''http://h/app/outer.jnlp'') [Main, Main]
      (Start, initState (exConfig ''http://h/app/outer.jnlp'') exDisk)))) ''/c/h/app/y.jar'' = None
   \<and> netlog (snd (exec exEnv (exConfig ''http://h/app/outer.jnlp'') [Main, Main]
      (Start, initState (exConfig ''http://h/app/outer.jnlp'') exDisk)))
     = [GET ''http://h/app/outer.jnlp'']
   \<and> fst (exec exEnv (exConfig ''http://h/app/outer.jnlp'') [Main, Go 0, Go 0, Main]
      (Start, initState (exConfig ''http://h/app/outer.jnlp'') exDisk))
     = Finished None (Some (''java'', [''-cp'', '':/c/h/app/y.jar'', ''Main'']))
   \<and> files (disk (snd (exec exEnv (exConfig ''http://h/app/outer.jnlp'') [Main, Go 0, Go 0, Main]
      (Start, initState (exConfig ''http://h/app/outer.jnlp'') exDisk)))) ''/c/h/app/y.jar''
     = Some ''defg''"
  by (simp add: run_defs dl_defs ex_defs path_defs nofilter_active)

section \<open>The launch assembler\<close>

text \<open>
  \<^bold>\<open>C7\<close>, launch precedence. When both launch blocks have an entry point, the arguments
  of the child process are the optional heap and library flags, \<^verbatim>\<open>-cp\<close> and the class
  path, the entry point of the application block and its arguments in order; they do
  not change when the applet block is replaced by any other; and this is the command
  \<^verbatim>\<open>run\<close> starts when no error was recorded.
\<close>

theorem launch_precedence:
  assumes "appMainClass (ApplicationDesc j) \<noteq> []" and "appletMainClass (AppletDesc j) \<noteq> []"
  shows "assemble j s =
           (if length (maxheapsize s) > 0 then [''-Xmx'' @ maxheapsize s] else [])
           @ (if nativelibs s \<noteq> [] then [''-Djava.library.path='' @ nativelibs s] else [])
           @ [''-cp'', jars s]
           @ appMainClass (ApplicationDesc j) # Arguments (ApplicationDesc j)
         \<and> assemble (j\<lparr>AppletDesc := other\<rparr>) s = assemble j s
         \<and> (errs s = [] \<longrightarrow>
              runAfter E (Some j) s
                = Finished (startProcess E (jrepath s) (assemble j s)) (Some (jrepath s, assemble j s)))"
  using assms by (simp add: assemble_def runAfter_def)

theorem launch_precedence_witness:
  "appMainClass (ApplicationDesc bothBlocks) \<noteq> [] \<and> appletMainClass (AppletDesc bothBlocks) \<noteq> []
   \<and> assemble bothBlocks (initState (exConfig []) exDisk) = [''-cp'', [], ''Main'', ''a1'', ''a2'']"
proof -
  have h1: "appMainClass (ApplicationDesc bothBlocks) \<noteq> []"
    and h2: "appletMainClass (AppletDesc bothBlocks) \<noteq> []"
    by (simp_all add: bothBlocks_def exJnlp_def)
  from launch_precedence [OF h1 h2, of "initState (exConfig []) exDisk"] h1 h2
  show ?thesis by (simp add: initState_def bothBlocks_def exJnlp_def)
qed

section \<open>What each piece of code may change\<close>

lemma ioOnly_refl: "ioOnly s s"
  by (simp add: ioOnly_def)

lemma ioOnly_trans: "ioOnly s t \<Longrightarrow> ioOnly t u \<Longrightarrow> ioOnly s u"
  by (simp add: ioOnly_def)

lemma probe_io: "ioOnly s (snd (probe E h f s))"
  by (simp add: ioOnly_def probe_def Let_def split: sum.splits)

lemma fetch_io: "ioOnly s (snd (fetch E h f s))"
  by (simp add: ioOnly_def fetch_def Let_def split: sum.splits prod.splits)

lemma download_io: "ioOnly s (snd (download E h f s))"
proof (cases "FileExists (disk s) f")
  case (Inl e)
  then show ?thesis by (simp add: download_def ioOnly_refl)
next
  case (Inr b)
  obtain r s1 where p: "(if b then probe E h f s else (Inr True, s)) = (r, s1)"
    by (cases "if b then probe E h f s else (Inr True, s)")
  have s1: "ioOnly s s1"
    using p probe_io [of s E h f] by (cases b) (auto simp: ioOnly_refl)
  show ?thesis
  proof (cases r)
    case (Inl e)
    with Inr p s1 show ?thesis by (simp add: download_def)
  next
    case (Inr m)
    with \<open>FileExists (disk s) f = Inr b\<close> p s1 fetch_io [of s1 E h f] show ?thesis
      by (cases m) (auto simp: download_def intro: ioOnly_trans)
  qed
qed

lemma runUnzip_io: "ioOnly s (snd (runUnzip E f p s))"
  by (simp add: ioOnly_def runUnzip_def split: sum.splits prod.splits)

lemma runSelfextract_io: "ioOnly s (snd (runSelfextract E f s))"
  by (simp add: ioOnly_def runSelfextract_def split: prod.splits)

text \<open>What an artifact task does to the variables of the program: the counter goes down
  by one and at most one error is added.\<close>

lemma runResource_effect:
  "\<exists>es. length es \<le> 1 \<and> errs (runResource E u p z x s) = errs s @ es
     \<and> wg (runResource E u p z x s) = wg s - 1
     \<and> pool (runResource E u p z x s) = pool s
     \<and> jars (runResource E u p z x s) = jars s
     \<and> nativelibs (runResource E u p z x s) = nativelibs s
     \<and> maxheapsize (runResource E u p z x s) = maxheapsize s
     \<and> jrepath (runResource E u p z x s) = jrepath s"
proof -
  obtain r1 s1 where d: "download E u p s = (r1, s1)" by (cases "download E u p s")
  from download_io [of s E u p] d have s1: "ioOnly s s1" by simp
  define zz where "zz = (z \<or> HasSuffix p ''.zip'')"
  define xx where "xx = (x \<or> HasSuffix p ''.exe'')"
  obtain r2 s2 where u: "(if zz then runUnzip E p (Dir p) s1 else (None, s1)) = (r2, s2)"
    by (cases "if zz then runUnzip E p (Dir p) s1 else (None, s1)")
  from runUnzip_io [of s1 E p "Dir p"] u have "ioOnly s1 s2"
    by (cases zz) (auto simp: ioOnly_refl)
  with s1 have s2: "ioOnly s s2" by (rule ioOnly_trans)
  obtain r3 s3 where e: "runSelfextract E p s2 = (r3, s3)" by (cases "runSelfextract E p s2")
  from runSelfextract_io [of s2 E p] e have "ioOnly s2 s3" by simp
  with s2 have s3: "ioOnly s s3" by (rule ioOnly_trans)
  have R: "runResource E u p z x s =
     (case r1 of Some err \<Rightarrow> wgDone (Add err s1)
      | None \<Rightarrow> (case r2 of Some err \<Rightarrow> wgDone (Add err s2)
          | None \<Rightarrow> if xx then (case r3 of Some err \<Rightarrow> wgDone (Add err s3) | None \<Rightarrow> wgDone s3)
                    else wgDone s2))"
    using d u e by (simp add: runResource_def Let_def zz_def xx_def split: option.splits)
  have one: "\<And>t err. ioOnly s t \<Longrightarrow> runResource E u p z x s = wgDone (Add err t) \<Longrightarrow> ?thesis"
    by (rule_tac x = "[err]" in exI) (simp add: ioOnly_def wgDone_def Add_def)
  have none: "\<And>t. ioOnly s t \<Longrightarrow> runResource E u p z x s = wgDone t \<Longrightarrow> ?thesis"
    by (rule_tac x = "[]" in exI) (simp add: ioOnly_def wgDone_def)
  show ?thesis
  proof (cases r1)
    case (Some err)
    with R one [OF s1] show ?thesis by simp
  next
    case None
    note r1 = this
    show ?thesis
    proof (cases r2)
      case (Some err)
      with R r1 one [OF s2] show ?thesis by simp
    next
      case None
      note r2 = this
      show ?thesis
      proof (cases xx)
        case False
        with R r1 r2 none [OF s2] show ?thesis by simp
      next
        case True
        with R r1 r2 one [OF s3] none [OF s3] show ?thesis by (cases r3) simp_all
      qed
    qed
  qed
qed

lemma extends_refl: "extends s s"
  by (simp add: extends_def)

lemma extends_trans: "extends s t \<Longrightarrow> extends t u \<Longrightarrow> extends s u"
  by (auto simp: extends_def)

lemma extends_same: "errs t = errs s \<Longrightarrow> pool t = pool s \<Longrightarrow> extends s t"
  by (simp add: extends_def)

lemma keeps_refl: "keeps s s"
  by (simp add: keeps_def)

lemma keeps_trans: "keeps s t \<Longrightarrow> keeps t u \<Longrightarrow> keeps s u"
  by (simp add: keeps_def)

lemma runResource_extends: "extends s (runResource E u p z x s)"
  using runResource_effect [of E u p z x s] by (auto simp: extends_def)

lemma runResource_keeps: "keeps s (runResource E u p z x s)"
  using runResource_effect [of E u p z x s] by (auto simp: keeps_def)

subsection \<open>The loops\<close>

lemma jarLoop_extends: "extends s (lstate (jarLoop E C a host cb js s))"
proof (induction js arbitrary: s)
  case Nil
  show ?case by (simp add: extends_refl)
next
  case (Cons jar rest)
  show ?case
  proof (cases "urlResolve E a (cb @ ''/'' @ jarHref jar)")
    case (Inl e)
    then show ?thesis by (simp add: extends_def Add_def wgAdd_def)
  next
    case (Inr url)
    let ?p = "jarPath E C host (jarHref jar)"
    let ?S = "spawn (ResourceTask url ?p False False)
                ((wgAdd s)\<lparr>jars := stringsJoin [jars (wgAdd s), ?p] ListSeparator\<rparr>)"
    have "extends s ?S" by (simp add: extends_def spawn_def wgAdd_def)
    from extends_trans [OF this Cons.IH [of ?S]] Inr show ?thesis by (simp add: Let_def)
  qed
qed

lemma jarLoop_keeps: "keeps s (lstate (jarLoop E C a host cb js s))"
proof (induction js arbitrary: s)
  case Nil
  show ?case by (simp add: keeps_refl)
next
  case (Cons jar rest)
  show ?case
  proof (cases "urlResolve E a (cb @ ''/'' @ jarHref jar)")
    case (Inl e)
    then show ?thesis by (simp add: keeps_def Add_def wgAdd_def)
  next
    case (Inr url)
    let ?p = "jarPath E C host (jarHref jar)"
    let ?S = "spawn (ResourceTask url ?p False False)
                ((wgAdd s)\<lparr>jars := stringsJoin [jars (wgAdd s), ?p] ListSeparator\<rparr>)"
    have "keeps s ?S" by (simp add: keeps_def spawn_def wgAdd_def)
    from keeps_trans [OF this Cons.IH [of ?S]] Inr show ?thesis by (simp add: Let_def)
  qed
qed

lemma jarLoop_Abort: "jarLoop E C a host cb js s = Abort s' \<Longrightarrow> errs s' \<noteq> []"
  by (induction js arbitrary: s) (auto simp: Let_def Add_def split: sum.splits)

lemma nativelibLoop_extends: "extends s (lstate (nativelibLoop E C a host cb js s))"
proof (induction js arbitrary: s)
  case Nil
  show ?case by (simp add: extends_refl)
next
  case (Cons jar rest)
  show ?case
  proof (cases "urlResolve E a (cb @ ''/'' @ jarHref jar)")
    case (Inl e)
    then show ?thesis by (simp add: extends_def Add_def wgAdd_def)
  next
    case (Inr url)
    let ?p = "jarPath E C host (jarHref jar)"
    let ?S = "spawn (ResourceTask url ?p True False)
                ((wgAdd s)\<lparr>nativelibs := stringsJoin [nativelibs (wgAdd s), Dir ?p] ListSeparator\<rparr>)"
    have "extends s ?S" by (simp add: extends_def spawn_def wgAdd_def)
    from extends_trans [OF this Cons.IH [of ?S]] Inr show ?thesis by (simp add: Let_def)
  qed
qed

lemma nativelibLoop_keeps: "keeps s (lstate (nativelibLoop E C a host cb js s))"
proof (induction js arbitrary: s)
  case Nil
  show ?case by (simp add: keeps_refl)
next
  case (Cons jar rest)
  show ?case
  proof (cases "urlResolve E a (cb @ ''/'' @ jarHref jar)")
    case (Inl e)
    then show ?thesis by (simp add: keeps_def Add_def wgAdd_def)
  next
    case (Inr url)
    let ?p = "jarPath E C host (jarHref jar)"
    let ?S = "spawn (ResourceTask url ?p True False)
                ((wgAdd s)\<lparr>nativelibs := stringsJoin [nativelibs (wgAdd s), Dir ?p] ListSeparator\<rparr>)"
    have "keeps s ?S" by (simp add: keeps_def spawn_def wgAdd_def)
    from keeps_trans [OF this Cons.IH [of ?S]] Inr show ?thesis by (simp add: Let_def)
  qed
qed

lemma nativelibLoop_Abort: "nativelibLoop E C a host cb js s = Abort s' \<Longrightarrow> errs s' \<noteq> []"
  by (induction js arbitrary: s) (auto simp: Let_def Add_def split: sum.splits)

lemma extensionLoop_extends: "extends s (lstate (extensionLoop E a cb es s))"
proof (induction es arbitrary: s)
  case Nil
  show ?case by (simp add: extends_refl)
next
  case (Cons x rest)
  show ?case
  proof (cases "urlResolve E a (cb @ ''/'' @ extHref x)")
    case (Inl e)
    then show ?thesis by (simp add: extends_def Add_def)
  next
    case (Inr url)
    have "extends s (spawn (JnlpTask url False) s)" by (simp add: extends_def spawn_def)
    from extends_trans [OF this Cons.IH [of "spawn (JnlpTask url False) s"]] Inr
    show ?thesis by simp
  qed
qed

lemma extensionLoop_keeps: "keeps s (lstate (extensionLoop E a cb es s))"
proof (induction es arbitrary: s)
  case Nil
  show ?case by (simp add: keeps_refl)
next
  case (Cons x rest)
  show ?case
  proof (cases "urlResolve E a (cb @ ''/'' @ extHref x)")
    case (Inl e)
    then show ?thesis by (simp add: keeps_def Add_def)
  next
    case (Inr url)
    have "keeps s (spawn (JnlpTask url False) s)" by (simp add: keeps_def spawn_def)
    from keeps_trans [OF this Cons.IH [of "spawn (JnlpTask url False) s"]] Inr
    show ?thesis by simp
  qed
qed

lemma extensionLoop_Abort: "extensionLoop E a cb es s = Abort s' \<Longrightarrow> errs s' \<noteq> []"
  by (induction es arbitrary: s) (auto simp: Add_def split: sum.splits)

lemma heap_frame:
  "errs (foldl (\<lambda>t j. t\<lparr>maxheapsize := MaxHeapSize j\<rparr>) t (js :: J2se list)) = errs t
   \<and> pool (foldl (\<lambda>t j. t\<lparr>maxheapsize := MaxHeapSize j\<rparr>) t js) = pool t
   \<and> jrepath (foldl (\<lambda>t j. t\<lparr>maxheapsize := MaxHeapSize j\<rparr>) t js) = jrepath t"
  by (induction js arbitrary: t) simp_all

lemma header_extends: "extends s (header r s)"
  by (simp add: header_def Let_def extends_def heap_frame)

lemma resourceLoop_extends: "extends s (lstate (resourceLoop E C a host cb h rs s))"
proof (induction rs arbitrary: s)
  case Nil
  show ?case by (simp add: extends_refl)
next
  case (Cons r rest)
  show ?case
  proof (cases "resourceActive r (arch C) (operatingsystem C)")
    case False
    with Cons.IH [of s] show ?thesis by simp
  next
    case True
    note act = this
    have e1: "extends s (lstate (jarLoop E C a host cb (Jars r) s))" by (rule jarLoop_extends)
    show ?thesis
    proof (cases "jarLoop E C a host cb (Jars r) s")
      case (Abort s1)
      with act e1 show ?thesis by simp
    next
      case (Next s1)
      note j = this
      with e1 have e1': "extends s s1" by simp
      have e2: "extends s1 (lstate (extensionLoop E a cb (Extensions r) s1))"
        by (rule extensionLoop_extends)
      show ?thesis
      proof (cases "extensionLoop E a cb (Extensions r) s1")
        case (Abort s2)
        with act j e2 e1' show ?thesis by (auto intro: extends_trans)
      next
        case (Next s2)
        note x = this
        with e2 e1' have e2': "extends s s2" by (auto intro: extends_trans)
        have e3: "extends s2 (lstate (nativelibLoop E C a host cb (Nativelibs r) s2))"
          by (rule nativelibLoop_extends)
        show ?thesis
        proof (cases "nativelibLoop E C a host cb (Nativelibs r) s2")
          case (Abort s3)
          with act j x e3 e2' show ?thesis by (auto intro: extends_trans)
        next
          case (Next s3)
          with e3 e2' have e3': "extends s s3" by (auto intro: extends_trans)
          let ?S = "if h then header r s3 else s3"
          have "extends s3 ?S" by (simp add: header_extends extends_refl)
          with e3' have "extends s ?S" by (rule extends_trans)
          from extends_trans [OF this Cons.IH [of ?S]] act j x Next show ?thesis by simp
        qed
      qed
    qed
  qed
qed

lemma resourceLoop_keeps: "keeps s (lstate (resourceLoop E C a host cb False rs s))"
proof (induction rs arbitrary: s)
  case Nil
  show ?case by (simp add: keeps_refl)
next
  case (Cons r rest)
  show ?case
  proof (cases "resourceActive r (arch C) (operatingsystem C)")
    case False
    with Cons.IH [of s] show ?thesis by simp
  next
    case True
    note act = this
    have e1: "keeps s (lstate (jarLoop E C a host cb (Jars r) s))" by (rule jarLoop_keeps)
    show ?thesis
    proof (cases "jarLoop E C a host cb (Jars r) s")
      case (Abort s1)
      with act e1 show ?thesis by simp
    next
      case (Next s1)
      note j = this
      with e1 have e1': "keeps s s1" by simp
      have e2: "keeps s1 (lstate (extensionLoop E a cb (Extensions r) s1))"
        by (rule extensionLoop_keeps)
      show ?thesis
      proof (cases "extensionLoop E a cb (Extensions r) s1")
        case (Abort s2)
        with act j e2 e1' show ?thesis by (auto intro: keeps_trans)
      next
        case (Next s2)
        note x = this
        with e2 e1' have e2': "keeps s s2" by (auto intro: keeps_trans)
        have e3: "keeps s2 (lstate (nativelibLoop E C a host cb (Nativelibs r) s2))"
          by (rule nativelibLoop_keeps)
        show ?thesis
        proof (cases "nativelibLoop E C a host cb (Nativelibs r) s2")
          case (Abort s3)
          with act j x e3 e2' show ?thesis by (auto intro: keeps_trans)
        next
          case (Next s3)
          with e3 e2' have e3': "keeps s s3" by (auto intro: keeps_trans)
          from keeps_trans [OF e3' Cons.IH [of s3]] act j x Next show ?thesis by simp
        qed
      qed
    qed
  qed
qed

lemma resourceLoop_Abort:
  "resourceLoop E C a host cb h rs s = Abort s' \<Longrightarrow> errs s' \<noteq> []"
  by (induction rs arbitrary: s)
     (auto split: if_splits loopres.splits
           dest: jarLoop_Abort extensionLoop_Abort nativelibLoop_Abort)

lemma jreLoop_extends: "extends s (lstate (jreLoop E C a host cb h js s))"
proof (induction js arbitrary: s)
  case Nil
  show ?case by (simp add: extends_refl)
next
  case (Cons jre rest)
  show ?case
  proof (cases "relevant (jreArch jre) (jreOs jre) (arch C) (operatingsystem C)")
    case False
    with Cons.IH [of s] show ?thesis by simp
  next
    case True
    note act = this
    show ?thesis
    proof (cases "urlResolve E a (cb @ ''/'' @ jreHref jre)")
      case (Inl e)
      with act show ?thesis by (simp add: extends_def Add_def wgAdd_def)
    next
      case (Inr url)
      let ?p = "jrePath E C host jre"
      let ?s2 = "if h then (wgAdd s)\<lparr>jrepath := Join [Dir ?p, ''bin'', ''javaw'']\<rparr> else wgAdd s"
      let ?S = "runResource E url ?p False True ?s2"
      have "extends s ?s2" by (simp add: extends_def wgAdd_def)
      from extends_trans [OF this runResource_extends] have "extends s ?S" .
      from extends_trans [OF this Cons.IH [of ?S]] act Inr show ?thesis by (simp add: Let_def)
    qed
  qed
qed

lemma jreLoop_keeps: "keeps s (lstate (jreLoop E C a host cb False js s))"
proof (induction js arbitrary: s)
  case Nil
  show ?case by (simp add: keeps_refl)
next
  case (Cons jre rest)
  show ?case
  proof (cases "relevant (jreArch jre) (jreOs jre) (arch C) (operatingsystem C)")
    case False
    with Cons.IH [of s] show ?thesis by simp
  next
    case True
    note act = this
    show ?thesis
    proof (cases "urlResolve E a (cb @ ''/'' @ jreHref jre)")
      case (Inl e)
      with act show ?thesis by (simp add: keeps_def Add_def wgAdd_def)
    next
      case (Inr url)
      let ?p = "jrePath E C host jre"
      let ?S = "runResource E url ?p False True (wgAdd s)"
      have "keeps s (wgAdd s)" by (simp add: keeps_def wgAdd_def)
      from keeps_trans [OF this runResource_keeps] have "keeps s ?S" .
      from keeps_trans [OF this Cons.IH [of ?S]] act Inr show ?thesis by (simp add: Let_def)
    qed
  qed
qed

lemma jreLoop_Abort: "jreLoop E C a host cb h js s = Abort s' \<Longrightarrow> errs s' \<noteq> []"
  by (induction js arbitrary: s) (auto simp: Let_def Add_def split: if_splits sum.splits)

subsection \<open>A resolution\<close>

lemma walk_extends: "extends s (final (walk E C a host cb h j s))"
proof (cases "resourceLoop E C a host cb h (Resources j) s")
  case (Abort s1)
  with resourceLoop_extends [of s E C a host cb h "Resources j"] show ?thesis
    by (simp add: walk_def)
next
  case (Next s1)
  with resourceLoop_extends [of s E C a host cb h "Resources j"] have "extends s s1" by simp
  from extends_trans [OF this jreLoop_extends [of s1 E C a host cb h "PrivateJres j"]] Next
  show ?thesis
    by (cases "jreLoop E C a host cb h (PrivateJres j) s1") (simp_all add: walk_def)
qed

lemma walk_keeps: "keeps s (final (walk E C a host cb False j s))"
proof (cases "resourceLoop E C a host cb False (Resources j) s")
  case (Abort s1)
  with resourceLoop_keeps [of s E C a host cb "Resources j"] show ?thesis
    by (simp add: walk_def)
next
  case (Next s1)
  with resourceLoop_keeps [of s E C a host cb "Resources j"] have "keeps s s1" by simp
  from keeps_trans [OF this jreLoop_keeps [of s1 E C a host cb "PrivateJres j"]] Next
  show ?thesis
    by (cases "jreLoop E C a host cb False (PrivateJres j) s1") (simp_all add: walk_def)
qed

lemma walk_None: "walk E C a host cb h j s = Returned None s' \<Longrightarrow> errs s' \<noteq> []"
  by (auto simp: walk_def split: loopres.splits dest: resourceLoop_Abort jreLoop_Abort)

lemma walk_returns: "\<exists>r s'. walk E C a host cb h j s = Returned r s'"
  by (simp add: walk_def split: loopres.splits)

lemma runJnlp_extends: "extends s (final (runJnlp E C a h s))"
proof -
  let ?s0 = "s\<lparr>netlog := netlog s @ [GET a]\<rparr>"
  have s0: "extends s ?s0" by (simp add: extends_def)
  have ad: "\<And>e. extends s (Add e ?s0)" by (simp add: extends_def Add_def)
  have w: "\<And>host cb j. extends s (final (walk E C a host cb h j ?s0))"
    by (rule extends_trans [OF s0 walk_extends])
  show ?thesis
    unfolding runJnlp_def Let_def
    using s0 ad w
    by (simp split: sum.splits option.splits)
qed

lemma runJnlp_keeps: "keeps s (final (runJnlp E C a False s))"
proof -
  let ?s0 = "s\<lparr>netlog := netlog s @ [GET a]\<rparr>"
  have s0: "keeps s ?s0" by (simp add: keeps_def)
  have ad: "\<And>e. keeps s (Add e ?s0)" by (simp add: keeps_def Add_def)
  have w: "\<And>host cb j. keeps s (final (walk E C a host cb False j ?s0))"
    by (rule keeps_trans [OF s0 walk_keeps])
  show ?thesis
    unfolding runJnlp_def Let_def
    using s0 ad w
    by (simp split: sum.splits option.splits)
qed

lemma runJnlp_None: "runJnlp E C a h s = Returned None s' \<Longrightarrow> errs s' \<noteq> []"
  by (auto simp: runJnlp_def Let_def Add_def split: sum.splits option.splits if_splits
           dest: walk_None)

lemma runJnlp_Exited:
  "(\<exists>s'. runJnlp E C a h s = Exited s') \<longleftrightarrow>
     (\<exists>resp. httpGet E a = Inr resp \<and> BodyErr resp = None \<and> StatusCode resp \<noteq> 200)"
proof -
  have "\<And>host cb j s0 s'. walk E C a host cb h j s0 \<noteq> Exited s'"
    using walk_returns by (metis outcome.distinct(3))
  then show ?thesis
    by (auto simp: runJnlp_def Let_def split: sum.splits option.splits if_splits)
qed

section \<open>Schedules\<close>

lemma removed_nested:
  "list_all nested ts \<Longrightarrow> list_all nested (take i ts @ drop (Suc i) ts)"
  by (auto simp: list_all_iff dest: in_set_takeD in_set_dropD)

lemma runTask_nested:
  assumes "nested t" and "list_all nested (pool s)"
  shows "keeps s (snd (runTask E C j t s)) \<and> list_all nested (pool (snd (runTask E C j t s)))
         \<and> fst (runTask E C j t s) \<noteq> Start"
proof (cases t)
  case (ResourceTask u p z x)
  with runResource_effect [of E u p z x s] assms show ?thesis
    by (auto simp: runTask_def keeps_def)
next
  case (JnlpTask a h)
  with assms have h: "\<not> h" by simp
  from runJnlp_extends [of s E C a False] assms(2)
  have "list_all nested (pool (final (runJnlp E C a False s)))" by (auto simp: extends_def)
  with runJnlp_keeps [of s E C a] JnlpTask h show ?thesis
    by (cases "runJnlp E C a False s") (simp_all add: runTask_def)
qed

lemma sched_nested:
  assumes "ph \<noteq> Start" and "list_all nested (pool s)"
  shows "keeps s (snd (sched E C ch (ph, s)))
         \<and> list_all nested (pool (snd (sched E C ch (ph, s))))
         \<and> fst (sched E C ch (ph, s)) \<noteq> Start"
proof (cases ph)
  case (Waiting j)
  show ?thesis
  proof (cases ch)
    case Main
    with Waiting assms show ?thesis by (simp add: keeps_refl runAfter_def split: option.splits)
  next
    case (Go i)
    show ?thesis
    proof (cases "i < length (pool s)")
      case False
      with Waiting Go assms show ?thesis by (simp add: keeps_refl)
    next
      case True
      let ?s = "s\<lparr>pool := take i (pool s) @ drop (Suc i) (pool s)\<rparr>"
      from True assms(2) have n: "nested (pool s ! i)" by (simp add: list_all_length)
      from removed_nested [OF assms(2), of i] have p: "list_all nested (pool ?s)" by simp
      have k: "keeps s ?s" by (simp add: keeps_def)
      from runTask_nested [OF n p, of E C j] k Waiting Go True show ?thesis
        by (auto simp: keeps_def)
    qed
  qed
qed (use assms in \<open>simp_all add: keeps_refl\<close>)

lemma exec_nested:
  "ph \<noteq> Start \<Longrightarrow> list_all nested (pool s) \<Longrightarrow> keeps s (snd (exec E C chs (ph, s)))"
proof (induction chs arbitrary: ph s)
  case Nil
  show ?case by (simp add: keeps_refl)
next
  case (Cons ch chs)
  obtain ph1 s1 where st: "sched E C ch (ph, s) = (ph1, s1)" by (cases "sched E C ch (ph, s)")
  from sched_nested [OF Cons.prems, of E C ch] st
  have "keeps s s1" "list_all nested (pool s1)" "ph1 \<noteq> Start" by simp_all
  with Cons.IH [of ph1 s1] st show ?case by (auto intro: keeps_trans)
qed

lemma runBefore_nested:
  assumes "list_all nested (pool s0)"
  shows "list_all nested (pool (snd (runBefore E C s0))) \<and> fst (runBefore E C s0) \<noteq> Start"
proof (cases "FileExists (disk s0) (cache C)")
  case (Inl e)
  with assms show ?thesis by (simp add: runBefore_def)
next
  case (Inr b)
  show ?thesis
  proof (cases "if \<not> b then MkdirAll (disk s0) (cache C) else Inr (disk s0)")
    case (Inl e)
    with Inr assms show ?thesis by (simp add: runBefore_def)
  next
    case (Inr d)
    define s1 where "s1 = s0\<lparr>disk := d,
        jrepath := (if length (jrepath s0) = 0
                    then (if GOOS C = ''windows'' then ''javaw'' else ''java'')
                    else jrepath s0)\<rparr>"
    from assms have "list_all nested (pool s1)" by (simp add: s1_def)
    with runJnlp_extends [of s1 E C "address C" True]
    have n: "list_all nested (pool (final (runJnlp E C (address C) True s1)))"
      by (auto simp: extends_def)
    have "runBefore E C s0 =
            (case runJnlp E C (address C) True s1 of
               Exited s2 \<Rightarrow> (Killed, s2)
             | Panicked s2 \<Rightarrow> (Crashed, s2)
             | Returned jnlp s2 \<Rightarrow> (Waiting jnlp, s2))"
      using \<open>FileExists (disk s0) (cache C) = Inr b\<close> Inr
      by (simp add: runBefore_def s1_def Let_def)
    with n show ?thesis by (cases "runJnlp E C (address C) True s1") simp_all
  qed
qed

section \<open>What the root call writes\<close>

lemma resourceLoop_filter:
  "resourceLoop E C a host cb h rs s
     = resourceLoop E C a host cb h
         (filter (\<lambda>r. resourceActive r (arch C) (operatingsystem C)) rs) s"
proof (induction rs arbitrary: s)
  case Nil
  show ?case by simp
next
  case (Cons r rest)
  show ?case
  proof (cases "resourceActive r (arch C) (operatingsystem C)")
    case False
    with Cons show ?thesis by simp
  next
    case True
    with Cons show ?thesis by (simp split: loopres.splits)
  qed
qed

lemma jreLoop_filter:
  "jreLoop E C a host cb h js s
     = jreLoop E C a host cb h
         (filter (\<lambda>j. relevant (jreArch j) (jreOs j) (arch C) (operatingsystem C)) js) s"
proof (induction js arbitrary: s)
  case Nil
  show ?case by simp
next
  case (Cons jre rest)
  show ?case
  proof (cases "relevant (jreArch jre) (jreOs jre) (arch C) (operatingsystem C)")
    case False
    with Cons show ?thesis by simp
  next
    case True
    with Cons show ?thesis by (cases h) (simp_all add: Let_def split: sum.splits)
  qed
qed

lemma header_jrepath: "jrepath (header r s) = jrepath s"
  by (simp add: header_def Let_def heap_frame)

lemma resourceLoop_jrepath: "jrepath (lstate (resourceLoop E C a host cb h rs s)) = jrepath s"
proof (induction rs arbitrary: s)
  case Nil
  show ?case by simp
next
  case (Cons r rest)
  show ?case
  proof (cases "resourceActive r (arch C) (operatingsystem C)")
    case False
    with Cons show ?thesis by simp
  next
    case True
    note act = this
    from jarLoop_keeps [of s E C a host cb "Jars r"]
    have e1: "jrepath (lstate (jarLoop E C a host cb (Jars r) s)) = jrepath s"
      by (simp add: keeps_def)
    show ?thesis
    proof (cases "jarLoop E C a host cb (Jars r) s")
      case (Abort s1)
      with act e1 show ?thesis by simp
    next
      case (Next s1)
      note j = this
      with e1 have k1: "jrepath s1 = jrepath s" by simp
      from extensionLoop_keeps [of s1 E a cb "Extensions r"]
      have e2: "jrepath (lstate (extensionLoop E a cb (Extensions r) s1)) = jrepath s1"
        by (simp add: keeps_def)
      show ?thesis
      proof (cases "extensionLoop E a cb (Extensions r) s1")
        case (Abort s2)
        with act j e2 k1 show ?thesis by simp
      next
        case (Next s2)
        note x = this
        with e2 k1 have k2: "jrepath s2 = jrepath s" by simp
        from nativelibLoop_keeps [of s2 E C a host cb "Nativelibs r"]
        have e3: "jrepath (lstate (nativelibLoop E C a host cb (Nativelibs r) s2)) = jrepath s2"
          by (simp add: keeps_def)
        show ?thesis
        proof (cases "nativelibLoop E C a host cb (Nativelibs r) s2")
          case (Abort s3)
          with act j x e3 k2 show ?thesis by simp
        next
          case (Next s3)
          with e3 k2 have "jrepath (if h then header r s3 else s3) = jrepath s"
            by (simp add: header_jrepath)
          with Cons.IH [of "if h then header r s3 else s3"] act j x Next show ?thesis by simp
        qed
      qed
    qed
  qed
qed

lemma jreLoop_maxheapsize: "maxheapsize (lstate (jreLoop E C a host cb h js s)) = maxheapsize s"
proof (induction js arbitrary: s)
  case Nil
  show ?case by simp
next
  case (Cons jre rest)
  show ?case
  proof (cases "relevant (jreArch jre) (jreOs jre) (arch C) (operatingsystem C)")
    case False
    with Cons show ?thesis by simp
  next
    case True
    note act = this
    show ?thesis
    proof (cases "urlResolve E a (cb @ ''/'' @ jreHref jre)")
      case (Inl e)
      with act show ?thesis by (simp add: Add_def wgAdd_def)
    next
      case (Inr url)
      let ?p = "jrePath E C host jre"
      let ?s2 = "if h then (wgAdd s)\<lparr>jrepath := Join [Dir ?p, ''bin'', ''javaw'']\<rparr> else wgAdd s"
      let ?S = "runResource E url ?p False True ?s2"
      from runResource_effect [of E url ?p False True ?s2]
      have "maxheapsize ?S = maxheapsize s" by (auto simp: wgAdd_def)
      with Cons.IH [of ?S] act Inr show ?thesis by (simp add: Let_def)
    qed
  qed
qed

lemma walk_Some:
  "walk E C a host cb h j s = Returned (Some j') s' \<Longrightarrow>
     j' = j \<and> (\<exists>s1. resourceLoop E C a host cb h (Resources j) s = Next s1
                 \<and> jreLoop E C a host cb h (PrivateJres j) s1 = Next s')"
  by (auto simp: walk_def split: loopres.splits)

lemma runJnlp_Some:
  "runJnlp E C a h s = Returned (Some j) s' \<Longrightarrow>
     \<exists>host cb. walk E C a host cb h j (s\<lparr>netlog := netlog s @ [GET a]\<rparr>) = Returned (Some j) s'"
proof -
  assume r: "runJnlp E C a h s = Returned (Some j) s'"
  then obtain host cb j0 where w: "walk E C a host cb h j0 (s\<lparr>netlog := netlog s @ [GET a]\<rparr>)
      = Returned (Some j) s'"
    by (auto simp: runJnlp_def Let_def split: sum.splits option.splits if_splits)
  from walk_Some [OF w] have "j = j0" by simp
  with w show ?thesis by blast
qed

lemma runJnlp_no_active:
  assumes "runJnlp E C a h s = Returned (Some j) s'"
    and "filter (\<lambda>r. resourceActive r (arch C) (operatingsystem C)) (Resources j) = []"
  shows "maxheapsize s' = maxheapsize s"
proof -
  from runJnlp_Some [OF assms(1)] obtain host cb
    where "walk E C a host cb h j (s\<lparr>netlog := netlog s @ [GET a]\<rparr>) = Returned (Some j) s'"
    by blast
  from walk_Some [OF this] obtain s1
    where r: "resourceLoop E C a host cb h (Resources j) (s\<lparr>netlog := netlog s @ [GET a]\<rparr>) = Next s1"
      and l: "jreLoop E C a host cb h (PrivateJres j) s1 = Next s'" by blast
  from r assms(2) resourceLoop_filter [of E C a host cb h "Resources j"]
  have "s1 = s\<lparr>netlog := netlog s @ [GET a]\<rparr>" by simp
  moreover from jreLoop_maxheapsize [of E C a host cb h "PrivateJres j" s1] l
  have "maxheapsize s' = maxheapsize s1" by simp
  ultimately show ?thesis by simp
qed

lemma runJnlp_no_matching:
  assumes "runJnlp E C a h s = Returned (Some j) s'"
    and "filter (\<lambda>r. relevant (jreArch r) (jreOs r) (arch C) (operatingsystem C)) (PrivateJres j) = []"
  shows "jrepath s' = jrepath s"
proof -
  from runJnlp_Some [OF assms(1)] obtain host cb
    where "walk E C a host cb h j (s\<lparr>netlog := netlog s @ [GET a]\<rparr>) = Returned (Some j) s'"
    by blast
  from walk_Some [OF this] obtain s1
    where r: "resourceLoop E C a host cb h (Resources j) (s\<lparr>netlog := netlog s @ [GET a]\<rparr>) = Next s1"
      and l: "jreLoop E C a host cb h (PrivateJres j) s1 = Next s'" by blast
  from l assms(2) jreLoop_filter [of E C a host cb h "PrivateJres j"]
  have "s' = s1" by simp
  moreover from resourceLoop_jrepath [of E C a host cb h "Resources j" "s\<lparr>netlog := netlog s @ [GET a]\<rparr>"] r
  have "jrepath s1 = jrepath s" by simp
  ultimately show ?thesis by simp
qed

text \<open>
  \<^bold>\<open>C9\<close>, as the code has it. Once the root call of \<^verbatim>\<open>run\<close> has returned, the
  goroutines that run in whatever order (artifact tasks, and extension resolutions at
  any depth, each started with \<^verbatim>\<open>doHeader\<close> false) leave \<^verbatim>\<open>maxheapsize\<close> and
  \<^verbatim>\<open>*jrepath\<close> as the root call set them, and a single resolution with \<^verbatim>\<open>doHeader\<close>
  false leaves both as they were, however it ends. In any resolution the walk over the
  resource groups is the walk over the active ones: a group that is not active changes
  nothing, the heap hint included; and the loop over the private runtimes is the loop
  over those whose filter matches. The walk over the groups never writes \<^verbatim>\<open>*jrepath\<close>
  and the loop over the private runtimes never writes \<^verbatim>\<open>maxheapsize\<close>: the heap hint
  comes from active resource groups only, the path of the runtime from matching private
  runtimes only. A resolution that returns its descriptor has left \<^verbatim>\<open>maxheapsize\<close> as
  it was when the descriptor has no active group, and \<^verbatim>\<open>*jrepath\<close> as it was when it
  has no matching private runtime.
\<close>

theorem header_only_from_root:
  assumes "list_all nested (pool s0)" and "runBefore E C s0 = (ph, s)"
  shows "maxheapsize (snd (exec E C chs (ph, s))) = maxheapsize s
         \<and> jrepath (snd (exec E C chs (ph, s))) = jrepath s
         \<and> maxheapsize (final (runJnlp E C a False t)) = maxheapsize t
         \<and> jrepath (final (runJnlp E C a False t)) = jrepath t
         \<and> resourceLoop E C a host cb h rs t
             = resourceLoop E C a host cb h
                 (filter (\<lambda>r. resourceActive r (arch C) (operatingsystem C)) rs) t
         \<and> jreLoop E C a host cb h js t
             = jreLoop E C a host cb h
                 (filter (\<lambda>r. relevant (jreArch r) (jreOs r) (arch C) (operatingsystem C)) js) t
         \<and> jrepath (lstate (resourceLoop E C a host cb h rs t)) = jrepath t
         \<and> maxheapsize (lstate (jreLoop E C a host cb h js t)) = maxheapsize t
         \<and> (runJnlp E C a h t = Returned (Some j) t'
              \<and> filter (\<lambda>r. resourceActive r (arch C) (operatingsystem C)) (Resources j) = []
              \<longrightarrow> maxheapsize t' = maxheapsize t)
         \<and> (runJnlp E C a h t = Returned (Some j) t'
              \<and> filter (\<lambda>r. relevant (jreArch r) (jreOs r) (arch C) (operatingsystem C))
                   (PrivateJres j) = []
              \<longrightarrow> jrepath t' = jrepath t)"
proof -
  from runBefore_nested [OF assms(1), of E C] assms(2)
  have "list_all nested (pool s)" "ph \<noteq> Start" by simp_all
  from exec_nested [OF this(2,1), of E C chs] runJnlp_keeps [of t E C a]
  have k: "maxheapsize (snd (exec E C chs (ph, s))) = maxheapsize s
         \<and> jrepath (snd (exec E C chs (ph, s))) = jrepath s
         \<and> maxheapsize (final (runJnlp E C a False t)) = maxheapsize t
         \<and> jrepath (final (runJnlp E C a False t)) = jrepath t"
    by (simp add: keeps_def)
  from k resourceLoop_filter [of E C a host cb h rs t] jreLoop_filter [of E C a host cb h js t]
    resourceLoop_jrepath [of E C a host cb h rs t] jreLoop_maxheapsize [of E C a host cb h js t]
    runJnlp_no_active [of E C a h t j t'] runJnlp_no_matching [of E C a h t j t']
  show ?thesis by (intro conjI; blast)
qed

lemma windowsGroup_inactive:
  "\<not> resourceActive windowsGroup (arch (exConfig a)) (operatingsystem (exConfig a))"
  by code_simp

lemma jreonly_returns:
  "runJnlp exEnv (exConfig ''http://h/app/heap.jnlp'') ''http://h/app/jreonly.jnlp'' True
       (initState (exConfig ''http://h/app/heap.jnlp'') exDisk)
     = Returned (Some jreOnlyJnlp)
         (final (runJnlp exEnv (exConfig ''http://h/app/heap.jnlp'') ''http://h/app/jreonly.jnlp''
            True (initState (exConfig ''http://h/app/heap.jnlp'') exDisk)))"
  by (simp add: run_defs dl_defs ex_defs path_defs relevant_def jrePath_def jreFilename_def
        runSelfextract_def)

lemma greedy_returns:
  "runJnlp exEnv (exConfig ''http://h/app/heap.jnlp'') ''http://h/app/greedy.jnlp'' True
       (initState (exConfig ''http://h/app/heap.jnlp'') exDisk)
     = Returned (Some (heapJnlp ''64m'' []))
         (final (runJnlp exEnv (exConfig ''http://h/app/heap.jnlp'') ''http://h/app/greedy.jnlp''
            True (initState (exConfig ''http://h/app/heap.jnlp'') exDisk)))"
  by (simp add: run_defs dl_defs ex_defs path_defs nofilter_active)

theorem header_only_from_root_witness:
  "list_all nested (pool (initState (exConfig ''http://h/app/heap.jnlp'') exDisk))
   \<and> maxheapsize (snd (runBefore exEnv (exConfig ''http://h/app/heap.jnlp'')
        (initState (exConfig ''http://h/app/heap.jnlp'') exDisk))) = ''512m''
   \<and> pool (snd (runBefore exEnv (exConfig ''http://h/app/heap.jnlp'')
        (initState (exConfig ''http://h/app/heap.jnlp'') exDisk)))
       = [JnlpTask ''http://h/app/greedy.jnlp'' False]
   \<and> maxheapsize (snd (exec exEnv (exConfig ''http://h/app/heap.jnlp'') [Go 0]
        (runBefore exEnv (exConfig ''http://h/app/heap.jnlp'')
           (initState (exConfig ''http://h/app/heap.jnlp'') exDisk)))) = ''512m''
   \<and> jrepath (snd (exec exEnv (exConfig ''http://h/app/heap.jnlp'') [Go 0]
        (runBefore exEnv (exConfig ''http://h/app/heap.jnlp'')
           (initState (exConfig ''http://h/app/heap.jnlp'') exDisk)))) = ''java''
   \<and> maxheapsize (lstate (resourceLoop exEnv (exConfig ''http://h/app/heap.jnlp'')
        ''http://h/app/heap.jnlp'' ''h'' ''http://h/app'' True [largeGroup, windowsGroup]
        (initState (exConfig ''http://h/app/heap.jnlp'') exDisk))) = ''512m''
   \<and> maxheapsize (final (runJnlp exEnv (exConfig ''http://h/app/heap.jnlp'')
        ''http://h/app/jreonly.jnlp'' True
        (initState (exConfig ''http://h/app/heap.jnlp'') exDisk))) = []
   \<and> jrepath (final (runJnlp exEnv (exConfig ''http://h/app/heap.jnlp'')
        ''http://h/app/greedy.jnlp'' True
        (initState (exConfig ''http://h/app/heap.jnlp'') exDisk))) = []"
proof -
  let ?C = "exConfig ''http://h/app/heap.jnlp''"
  let ?rb = "runBefore exEnv ?C (initState ?C exDisk)"
  have h1: "list_all nested (pool (initState ?C exDisk))" by (simp add: initState_def)
  have h2: "?rb = (fst ?rb, snd ?rb)" by simp
  have e: "maxheapsize (snd ?rb) = ''512m'' \<and> jrepath (snd ?rb) = ''java''
           \<and> pool (snd ?rb) = [JnlpTask ''http://h/app/greedy.jnlp'' False]"
    by (simp add: run_defs dl_defs ex_defs path_defs nofilter_active)
  note T = header_only_from_root [OF h1 h2, of "[Go 0]" "''http://h/app/heap.jnlp''"
      "initState ?C exDisk" "''h''" "''http://h/app''" True "[largeGroup, windowsGroup]"]
  have l: "resourceActive largeGroup (arch ?C) (operatingsystem ?C)"
    by (simp add: largeGroup_def exGroup_def nofilter_active)
  from T have "resourceLoop exEnv ?C ''http://h/app/heap.jnlp'' ''h'' ''http://h/app'' True
                 [largeGroup, windowsGroup] (initState ?C exDisk)
      = resourceLoop exEnv ?C ''http://h/app/heap.jnlp'' ''h'' ''http://h/app'' True
          (filter (\<lambda>r. resourceActive r (arch ?C) (operatingsystem ?C)) [largeGroup, windowsGroup])
          (initState ?C exDisk)"
    by blast
  also have "\<dots> = resourceLoop exEnv ?C ''http://h/app/heap.jnlp'' ''h'' ''http://h/app'' True
          [largeGroup] (initState ?C exDisk)"
    using l windowsGroup_inactive [of "''http://h/app/heap.jnlp''"] by simp
  finally have "maxheapsize (lstate (resourceLoop exEnv ?C ''http://h/app/heap.jnlp'' ''h''
      ''http://h/app'' True [largeGroup, windowsGroup] (initState ?C exDisk))) = ''512m''"
    using l by (simp add: largeGroup_def exGroup_def header_def initState_def)
  with T h1 e have first:
    "list_all nested (pool (initState ?C exDisk))
     \<and> maxheapsize (snd ?rb) = ''512m''
     \<and> pool (snd ?rb) = [JnlpTask ''http://h/app/greedy.jnlp'' False]
     \<and> maxheapsize (snd (exec exEnv ?C [Go 0] ?rb)) = ''512m''
     \<and> jrepath (snd (exec exEnv ?C [Go 0] ?rb)) = ''java''
     \<and> maxheapsize (lstate (resourceLoop exEnv ?C ''http://h/app/heap.jnlp'' ''h''
          ''http://h/app'' True [largeGroup, windowsGroup] (initState ?C exDisk))) = ''512m''"
    by simp
  let ?j = "final (runJnlp exEnv ?C ''http://h/app/jreonly.jnlp'' True (initState ?C exDisk))"
  let ?g = "final (runJnlp exEnv ?C ''http://h/app/greedy.jnlp'' True (initState ?C exDisk))"
  have nj: "filter (\<lambda>r. resourceActive r (arch ?C) (operatingsystem ?C)) (Resources jreOnlyJnlp) = []"
    by (simp add: jreOnlyJnlp_def exJnlp_def)
  have ng: "filter (\<lambda>r. relevant (jreArch r) (jreOs r) (arch ?C) (operatingsystem ?C))
              (PrivateJres (heapJnlp ''64m'' [])) = []"
    by (simp add: heapJnlp_def exJnlp_def)
  have i: "maxheapsize (initState ?C exDisk) = [] \<and> jrepath (initState ?C exDisk) = []"
    by (simp add: initState_def exConfig_def)
  note J = header_only_from_root [OF h1 h2, where a = "''http://h/app/jreonly.jnlp''"
      and h = True and t = "initState ?C exDisk" and j = jreOnlyJnlp and t' = ?j]
  note G = header_only_from_root [OF h1 h2, where a = "''http://h/app/greedy.jnlp''"
      and h = True and t = "initState ?C exDisk" and j = "heapJnlp ''64m'' []" and t' = ?g]
  from J [THEN conjunct2, THEN conjunct2, THEN conjunct2, THEN conjunct2, THEN conjunct2,
      THEN conjunct2, THEN conjunct2, THEN conjunct2, THEN conjunct1]
    conjI [OF jreonly_returns nj]
  have "maxheapsize ?j = maxheapsize (initState ?C exDisk)" by (rule mp)
  with i have a: "maxheapsize ?j = []" by (simp only:)
  from G [THEN conjunct2, THEN conjunct2, THEN conjunct2, THEN conjunct2, THEN conjunct2,
      THEN conjunct2, THEN conjunct2, THEN conjunct2, THEN conjunct2]
    conjI [OF greedy_returns ng]
  have "jrepath ?g = jrepath (initState ?C exDisk)" by (rule mp)
  with i have b: "jrepath ?g = []" by (simp only:)
  from first a b show ?thesis by (simp only: simp_thms)
qed

text \<open>
  The claim as it stands has the root write both variables while it walks its active
  resource groups. \<^verbatim>\<open>*jrepath\<close> is written in the loop over the private runtimes: the
  descriptor \<^verbatim>\<open>jreonly.jnlp\<close> has no resource group at all and one private runtime, and
  the root call turns \<^verbatim>\<open>java\<close> into \<^verbatim>\<open>/c/h/bin/javaw\<close>.
\<close>

theorem root_writes_jrepath_without_groups:
  "decodeJnlp exEnv ''jreonly'' = Inr jreOnlyJnlp
   \<and> Resources jreOnlyJnlp = []
   \<and> jrepath ((initState (exConfig ''http://h/app/jreonly.jnlp'') exDisk)\<lparr>jrepath := ''java''\<rparr>)
       = ''java''
   \<and> jrepath (final (runJnlp exEnv (exConfig ''http://h/app/jreonly.jnlp'')
        ''http://h/app/jreonly.jnlp'' True
        ((initState (exConfig ''http://h/app/jreonly.jnlp'') exDisk)\<lparr>jrepath := ''java''\<rparr>)))
       = ''/c/h/bin/javaw''
   \<and> jrepath (snd (runBefore exEnv (exConfig ''http://h/app/jreonly.jnlp'')
        (initState (exConfig ''http://h/app/jreonly.jnlp'') exDisk))) = ''/c/h/bin/javaw''"
  by (simp add: run_defs dl_defs ex_defs path_defs relevant_def jrePath_def jreFilename_def
        runSelfextract_def)

section \<open>After a root call that returned nil\<close>

lemma runTask_errs: "\<exists>es. errs (snd (runTask E C j t s)) = errs s @ es"
proof (cases t)
  case (ResourceTask u p z x)
  with runResource_effect [of E u p z x s] show ?thesis by (auto simp: runTask_def)
next
  case (JnlpTask a h)
  with runJnlp_extends [of s E C a h] show ?thesis
    by (cases "runJnlp E C a h s") (auto simp: runTask_def extends_def)
qed

lemma runTask_phase:
  "fst (runTask E C j t s) = Waiting j \<or> fst (runTask E C j t s) = Killed
   \<or> fst (runTask E C j t s) = Crashed"
  by (cases t) (auto simp: runTask_def split: outcome.splits)

lemma sched_afterNil: "afterNil (ph, s) \<Longrightarrow> afterNil (sched E C ch (ph, s))"
proof (cases ph)
  case (Waiting j)
  assume a: "afterNil (ph, s)"
  with Waiting have j: "j = None" and e: "errs s \<noteq> []" by simp_all
  show ?thesis
  proof (cases ch)
    case Main
    with Waiting j e show ?thesis by (simp add: runAfter_def)
  next
    case (Go i)
    show ?thesis
    proof (cases "i < length (pool s)")
      case False
      with Waiting Go a show ?thesis by simp
    next
      case True
      let ?s = "s\<lparr>pool := take i (pool s) @ drop (Suc i) (pool s)\<rparr>"
      obtain ph1 s1 where r: "runTask E C None (pool s ! i) ?s = (ph1, s1)"
        by (cases "runTask E C None (pool s ! i) ?s")
      from runTask_errs [of E C None "pool s ! i" ?s] r e have "errs s1 \<noteq> []" by auto
      moreover from runTask_phase [of E C None "pool s ! i" ?s] r
      have "ph1 = Waiting None \<or> ph1 = Killed \<or> ph1 = Crashed" by simp
      ultimately have "afterNil (ph1, s1)" by auto
      with Waiting Go True j r show ?thesis by simp
    qed
  qed
qed (cases ch; simp)+

lemma exec_afterNil: "afterNil c \<Longrightarrow> afterNil (exec E C chs c)"
proof (induction chs arbitrary: c)
  case Nil
  then show ?case by simp
next
  case (Cons ch chs)
  obtain ph s where c: "c = (ph, s)" by (cases c)
  with Cons.prems sched_afterNil [of ph s E C ch] have "afterNil (sched E C ch c)" by simp
  from Cons.IH [OF this] show ?case by simp
qed

lemma runBefore_None:
  assumes "runBefore E C s0 = (Waiting None, s)"
  shows "errs s \<noteq> []"
proof -
  from assms obtain s1 where "runJnlp E C (address C) True s1 = Returned None s"
    by (auto simp: runBefore_def Let_def split: sum.splits outcome.splits)
  then show ?thesis by (rule runJnlp_None)
qed

lemma unreadable_wg:
  assumes "unreadable E a"
  shows "wg (final (runJnlp E C a h s)) = wg s"
  using assms
  by (auto simp: unreadable_def runJnlp_def Let_def Add_def split: sum.splits option.splits)

lemma runBefore_wg:
  assumes "unreadable E (address C)"
  shows "wg (snd (runBefore E C s0)) = wg s0"
proof (cases "FileExists (disk s0) (cache C)")
  case (Inl e)
  then show ?thesis by (simp add: runBefore_def)
next
  case (Inr b)
  show ?thesis
  proof (cases "if \<not> b then MkdirAll (disk s0) (cache C) else Inr (disk s0)")
    case (Inl e)
    with Inr show ?thesis by (simp add: runBefore_def)
  next
    case (Inr d)
    define s1 where "s1 = s0\<lparr>disk := d,
        jrepath := (if length (jrepath s0) = 0
                    then (if GOOS C = ''windows'' then ''javaw'' else ''java'')
                    else jrepath s0)\<rparr>"
    have w: "wg (final (runJnlp E C (address C) True s1)) = wg s0"
      using unreadable_wg [OF assms, of C True s1] by (simp add: s1_def)
    have "runBefore E C s0 =
            (case runJnlp E C (address C) True s1 of
               Exited s2 \<Rightarrow> (Killed, s2)
             | Panicked s2 \<Rightarrow> (Crashed, s2)
             | Returned jnlp s2 \<Rightarrow> (Waiting jnlp, s2))"
      using \<open>FileExists (disk s0) (cache C) = Inr b\<close> Inr
      by (simp add: runBefore_def s1_def Let_def)
    with w show ?thesis by (cases "runJnlp E C (address C) True s1") simp_all
  qed
qed

text \<open>
  When the root call of \<^verbatim>\<open>run\<close> returns \<^verbatim>\<open>nil\<close>, an error is recorded. Whatever
  goroutines run afterwards, an error stays recorded, so the code after \<^verbatim>\<open>wg.Wait()\<close>,
  when it is reached, returns the first recorded error without reading the descriptor:
  if \<^verbatim>\<open>run\<close> returned, it returned that error and started no process. When the
  descriptor could not be fetched, read, located or decoded, the root call has not
  touched the wait group, and the main goroutine passes \<^verbatim>\<open>wg.Wait()\<close> at once.
\<close>

theorem nil_root_never_launches:
  assumes "runBefore E C s0 = (Waiting None, s)"
  shows "errs s \<noteq> []
         \<and> errs (snd (exec E C chs (Waiting None, s))) \<noteq> []
         \<and> runAfter E None (snd (exec E C chs (Waiting None, s)))
             = Finished (Some (hd (errs (snd (exec E C chs (Waiting None, s)))))) None
         \<and> (\<forall>r cmd. fst (exec E C chs (Waiting None, s)) = Finished r cmd \<longrightarrow>
               r = Some (hd (errs (snd (exec E C chs (Waiting None, s))))) \<and> cmd = None)
         \<and> (unreadable E (address C) \<and> wg s0 = 0 \<longrightarrow>
               sched E C Main (Waiting None, s) = (Finished (Some (hd (errs s))) None, s))"
proof -
  from runBefore_None [OF assms] have e: "errs s \<noteq> []" .
  then have "afterNil (Waiting None, s)" by simp
  from exec_afterNil [OF this, of E C chs]
  have a: "afterNil (exec E C chs (Waiting None, s))" .
  obtain ph s' where x: "exec E C chs (Waiting None, s) = (ph, s')"
    by (cases "exec E C chs (Waiting None, s)")
  with a have e': "errs s' \<noteq> []" by (cases ph) simp_all
  from a x have f: "\<forall>r cmd. ph = Finished r cmd \<longrightarrow> r = Some (hd (errs s')) \<and> cmd = None"
    by auto
  have w: "unreadable E (address C) \<and> wg s0 = 0 \<longrightarrow> wg s = 0"
    using runBefore_wg [of E C s0] assms by auto
  from e e' f x w show ?thesis by (simp add: runAfter_def)
qed

theorem nil_root_never_launches_witness:
  "fst (runBefore exEnv (exConfig ''http://h/app/none.jnlp'')
         (initState (exConfig ''http://h/app/none.jnlp'') exDisk)) = Waiting None
   \<and> exec exEnv (exConfig ''http://h/app/none.jnlp'') [Main]
        (Waiting None, snd (runBefore exEnv (exConfig ''http://h/app/none.jnlp'')
           (initState (exConfig ''http://h/app/none.jnlp'') exDisk)))
      = (Finished (Some (NetError ''http://h/app/none.jnlp'')) None,
         snd (runBefore exEnv (exConfig ''http://h/app/none.jnlp'')
           (initState (exConfig ''http://h/app/none.jnlp'') exDisk)))"
proof -
  let ?C = "exConfig ''http://h/app/none.jnlp''"
  let ?rb = "runBefore exEnv ?C (initState ?C exDisk)"
  have e: "fst ?rb = Waiting None \<and> errs (snd ?rb) = [NetError ''http://h/app/none.jnlp'']"
    by (simp add: run_defs dl_defs ex_defs)
  then have h: "?rb = (Waiting None, snd ?rb)" by (metis prod.collapse)
  have u: "unreadable exEnv (address ?C) \<and> wg (initState ?C exDisk) = 0"
    by (simp add: unreadable_def ex_defs initState_def)
  from nil_root_never_launches [OF h, of "[]"] u e show ?thesis by simp
qed

subsection \<open>A root call that returned nil with the wait group raised\<close>

lemma blocked_forever:
  assumes "wg s \<noteq> 0" and "pool s = []"
  shows "exec E C chs (Waiting j, s) = (Waiting j, s)"
proof (induction chs)
  case Nil
  show ?case by simp
next
  case (Cons ch chs)
  from assms have "sched E C ch (Waiting j, s) = (Waiting j, s)" by (cases ch) simp_all
  with Cons.IH show ?case by simp
qed

lemma start_or_before:
  "exec E C chs (Start, s) = (Start, s)
   \<or> (\<exists>chs'. exec E C chs (Start, s) = exec E C chs' (runBefore E C s))"
proof (induction chs)
  case Nil
  show ?case by simp
next
  case (Cons ch chs)
  show ?case
  proof (cases ch)
    case Main
    then show ?thesis by auto
  next
    case (Go i)
    with Cons.IH show ?thesis by simp
  qed
qed

lemma badhref_root:
  "runBefore exEnv (exConfig ''http://h/app/badhref.jnlp'')
       (initState (exConfig ''http://h/app/badhref.jnlp'') exDisk)
     = (Waiting None, blockedState)"
  by (simp add: blockedState_def run_defs dl_defs ex_defs nofilter_active)

text \<open>
  \<^bold>\<open>C10\<close>. The root call also returns \<^verbatim>\<open>nil\<close> when the href of a jar, of a native
  library or of a private runtime does not parse, and there \<^verbatim>\<open>wg.Add(1)\<close> has run
  before \<^verbatim>\<open>u.Parse\<close> and nothing ever calls \<^verbatim>\<open>Done\<close> for it. For the descriptor
  \<^verbatim>\<open>badhref.jnlp\<close>, whose only jar has the href \<^verbatim>\<open>%zz\<close>: the root call returns
  \<^verbatim>\<open>nil\<close> with the parse error recorded, the counter at 1 and no goroutine started;
  no schedule changes that configuration, and no schedule of the whole run gets past
  \<^verbatim>\<open>wg.Wait()\<close>. The recorded error is never reported and \<^verbatim>\<open>run\<close> never returns.
  (The main goroutine stays in \<^verbatim>\<open>wg.Wait()\<close>; what the Go runtime does with a process
  whose goroutines are all blocked is outside the model.)
\<close>

theorem unparsable_href_blocks_join:
  "runBefore exEnv (exConfig ''http://h/app/badhref.jnlp'')
       (initState (exConfig ''http://h/app/badhref.jnlp'') exDisk)
     = (Waiting None, blockedState)
   \<and> errs blockedState = [UrlError ''http://h/app/%zz'']
   \<and> wg blockedState = 1
   \<and> pool blockedState = []
   \<and> exec exEnv (exConfig ''http://h/app/badhref.jnlp'') chs (Waiting None, blockedState)
       = (Waiting None, blockedState)
   \<and> (fst (exec exEnv (exConfig ''http://h/app/badhref.jnlp'') chs
              (Start, initState (exConfig ''http://h/app/badhref.jnlp'') exDisk)) = Start
        \<or> fst (exec exEnv (exConfig ''http://h/app/badhref.jnlp'') chs
              (Start, initState (exConfig ''http://h/app/badhref.jnlp'') exDisk)) = Waiting None)"
proof -
  let ?C = "exConfig ''http://h/app/badhref.jnlp''"
  note r = badhref_root
  have e: "errs blockedState = [UrlError ''http://h/app/%zz'']"
    by (simp add: blockedState_def)
  have w: "wg blockedState = 1" by (simp add: blockedState_def)
  have p: "pool blockedState = []" by (simp add: blockedState_def initState_def)
  from w have "wg blockedState \<noteq> 0" by simp
  from blocked_forever [OF this p]
  have b: "\<And>chs. exec exEnv ?C chs (Waiting None, blockedState) = (Waiting None, blockedState)" .
  from start_or_before [of exEnv ?C chs "initState ?C exDisk"] r b
  have s: "fst (exec exEnv ?C chs (Start, initState ?C exDisk)) = Start
           \<or> fst (exec exEnv ?C chs (Start, initState ?C exDisk)) = Waiting None"
    by auto
  from r e w p b [of chs] s show ?thesis by (intro conjI)
qed

section \<open>Failures in goroutines\<close>

lemma runResource_stages:
  "runResource E u p z x s =
     (case download E u p s of
        (Some e, s1) \<Rightarrow> wgDone (Add e s1)
      | (None, s1) \<Rightarrow>
          (case unpacked E p z s1 of
             (Some e, s2) \<Rightarrow> wgDone (Add e s2)
           | (None, s2) \<Rightarrow>
               (case extracted E p x s2 of
                  (Some e, s3) \<Rightarrow> wgDone (Add e s3)
                | (None, s3) \<Rightarrow> wgDone s3)))"
  by (simp add: runResource_def unpacked_def extracted_def Let_def
           split: prod.splits option.splits)

lemma unpacked_io: "ioOnly s (snd (unpacked E p z s))"
  by (simp add: unpacked_def runUnzip_io ioOnly_refl)

lemma extracted_io: "ioOnly s (snd (extracted E p x s))"
  by (simp add: extracted_def runSelfextract_io ioOnly_refl)

lemma runResource_failures:
  "(\<forall>e. fst (download E u p s) = Some e \<longrightarrow>
        errs (runResource E u p z x s) = errs s @ [e]
        \<and> disk (runResource E u p z x s) = disk (snd (download E u p s)))
   \<and> (\<forall>e. fst (download E u p s) = None
          \<and> fst (unpacked E p z (snd (download E u p s))) = Some e \<longrightarrow>
        errs (runResource E u p z x s) = errs s @ [e]
        \<and> disk (runResource E u p z x s) = disk (snd (unpacked E p z (snd (download E u p s)))))
   \<and> (\<forall>e. fst (download E u p s) = None
          \<and> fst (unpacked E p z (snd (download E u p s))) = None
          \<and> fst (extracted E p x (snd (unpacked E p z (snd (download E u p s))))) = Some e \<longrightarrow>
        errs (runResource E u p z x s) = errs s @ [e])
   \<and> (fst (download E u p s) = None
          \<and> fst (unpacked E p z (snd (download E u p s))) = None
          \<and> fst (extracted E p x (snd (unpacked E p z (snd (download E u p s))))) = None \<longrightarrow>
        errs (runResource E u p z x s) = errs s)"
proof -
  obtain r1 s1 where d: "download E u p s = (r1, s1)" by (cases "download E u p s")
  obtain r2 s2 where n: "unpacked E p z s1 = (r2, s2)" by (cases "unpacked E p z s1")
  obtain r3 s3 where e: "extracted E p x s2 = (r3, s3)" by (cases "extracted E p x s2")
  from download_io [of s E u p] d have i1: "errs s1 = errs s" by (simp add: ioOnly_def)
  from unpacked_io [of s1 E p z] n i1 have i2: "errs s2 = errs s" by (simp add: ioOnly_def)
  from extracted_io [of s2 E p x] e i2 have i3: "errs s3 = errs s" by (simp add: ioOnly_def)
  show ?thesis
    using i1 i2 i3 d n e
    by (cases r1; cases r2; cases r3) (simp_all add: runResource_stages wgDone_def Add_def)
qed

lemma runJnlp_Exited_state:
  "runJnlp E C a h s = Exited s' \<Longrightarrow> errs s' = errs s \<and> pool s' = pool s \<and> wg s' = wg s
     \<and> disk s' = disk s"
proof -
  assume r: "runJnlp E C a h s = Exited s'"
  have w: "\<And>host cb j s0. walk E C a host cb h j s0 \<noteq> Exited s'"
    using walk_returns by (metis outcome.distinct(3))
  from r w have "s' = s\<lparr>netlog := netlog s @ [GET a]\<rparr>"
    by (auto simp: runJnlp_def Let_def split: sum.splits option.splits if_splits)
  then show ?thesis by simp
qed

lemma runJnlp_descriptorError:
  "descriptorError E a = Some e \<Longrightarrow>
     runJnlp E C a h s = Returned None (Add e (s\<lparr>netlog := netlog s @ [GET a]\<rparr>))"
  by (auto simp: descriptorError_def runJnlp_def Let_def
           split: sum.splits option.splits if_splits)

text \<open>
  \<^bold>\<open>C5\<close>, as the code has it. An artifact task never ends the process, leaves the
  goroutines already started where they are and lowers the counter by one. When the
  reconciler fails, the task adds that error and stops there; when the reconciler
  succeeds and unpacking fails, it adds that error and stops there; when both succeed
  and the self-extraction fails, it adds that error; when nothing fails it adds none. A
  resolution of a descriptor, nested or not, only adds errors and goroutines. It ends
  the whole process, by \<^verbatim>\<open>os.Exit(1)\<close>, exactly when the descriptor arrives with a status
  other than 200, and then it has recorded no error and started no goroutine. When the
  descriptor cannot be fetched, read, located or decoded, it adds that one error,
  returns, and starts no goroutine.
\<close>

theorem task_failure_effects:
  "fst (runTask E C j (ResourceTask u p z x) s) = Waiting j
   \<and> pool (snd (runTask E C j (ResourceTask u p z x) s)) = pool s
   \<and> wg (snd (runTask E C j (ResourceTask u p z x) s)) = wg s - 1
   \<and> (\<forall>e. fst (download E u p s) = Some e \<longrightarrow>
         errs (snd (runTask E C j (ResourceTask u p z x) s)) = errs s @ [e]
         \<and> disk (snd (runTask E C j (ResourceTask u p z x) s)) = disk (snd (download E u p s)))
   \<and> (\<forall>e. fst (download E u p s) = None
           \<and> fst (unpacked E p z (snd (download E u p s))) = Some e \<longrightarrow>
         errs (snd (runTask E C j (ResourceTask u p z x) s)) = errs s @ [e]
         \<and> disk (snd (runTask E C j (ResourceTask u p z x) s))
             = disk (snd (unpacked E p z (snd (download E u p s)))))
   \<and> (\<forall>e. fst (download E u p s) = None
           \<and> fst (unpacked E p z (snd (download E u p s))) = None
           \<and> fst (extracted E p x (snd (unpacked E p z (snd (download E u p s))))) = Some e \<longrightarrow>
         errs (snd (runTask E C j (ResourceTask u p z x) s)) = errs s @ [e])
   \<and> (fst (download E u p s) = None
           \<and> fst (unpacked E p z (snd (download E u p s))) = None
           \<and> fst (extracted E p x (snd (unpacked E p z (snd (download E u p s))))) = None \<longrightarrow>
         errs (snd (runTask E C j (ResourceTask u p z x) s)) = errs s)
   \<and> grows s (snd (runTask E C j (JnlpTask a h) s))
   \<and> (fst (runTask E C j (JnlpTask a h) s) = Killed \<longleftrightarrow>
        (\<exists>resp. httpGet E a = Inr resp \<and> BodyErr resp = None \<and> StatusCode resp \<noteq> 200))
   \<and> (fst (runTask E C j (JnlpTask a h) s) = Killed \<longrightarrow>
         errs (snd (runTask E C j (JnlpTask a h) s)) = errs s
         \<and> pool (snd (runTask E C j (JnlpTask a h) s)) = pool s)
   \<and> (\<forall>e. descriptorError E a = Some e \<longrightarrow>
         fst (runTask E C j (JnlpTask a h) s) = Waiting j
         \<and> errs (snd (runTask E C j (JnlpTask a h) s)) = errs s @ [e]
         \<and> pool (snd (runTask E C j (JnlpTask a h) s)) = pool s)"
proof -
  have t: "runTask E C j (ResourceTask u p z x) s = (Waiting j, runResource E u p z x s)"
    by (simp add: runTask_def)
  have g: "grows s (snd (runTask E C j (JnlpTask a h) s))"
    using runJnlp_extends [of s E C a h]
    by (cases "runJnlp E C a h s") (auto simp: runTask_def extends_def grows_def)
  have k: "fst (runTask E C j (JnlpTask a h) s) = Killed \<longleftrightarrow> (\<exists>s'. runJnlp E C a h s = Exited s')"
    by (cases "runJnlp E C a h s") (simp_all add: runTask_def)
  have ks: "fst (runTask E C j (JnlpTask a h) s) = Killed \<longrightarrow>
         errs (snd (runTask E C j (JnlpTask a h) s)) = errs s
         \<and> pool (snd (runTask E C j (JnlpTask a h) s)) = pool s"
    using runJnlp_Exited_state [of E C a h s]
    by (cases "runJnlp E C a h s") (simp_all add: runTask_def)
  have de: "\<forall>e. descriptorError E a = Some e \<longrightarrow>
         fst (runTask E C j (JnlpTask a h) s) = Waiting j
         \<and> errs (snd (runTask E C j (JnlpTask a h) s)) = errs s @ [e]
         \<and> pool (snd (runTask E C j (JnlpTask a h) s)) = pool s"
    by (auto simp: runTask_def Add_def dest!: runJnlp_descriptorError [of E a _ C h s])
  from runResource_effect [of E u p z x s]
  have p: "pool (runResource E u p z x s) = pool s" and w: "wg (runResource E u p z x s) = wg s - 1"
    by auto
  show ?thesis
    unfolding t fst_conv snd_conv
    using runResource_failures [of E u p s z x] p w g k [unfolded runJnlp_Exited] ks de
    by (intro conjI; blast)
qed

theorem task_failure_effects_witness:
  "fst (download exEnv ''http://h/app/none.jar'' ''/c/h/app/none.jar''
          (initState (exConfig ''http://h/app/both.jnlp'') exDisk))
     = Some (NetError ''http://h/app/none.jar'')
   \<and> errs (snd (runTask exEnv (exConfig ''http://h/app/both.jnlp'') None
                 (ResourceTask ''http://h/app/none.jar'' ''/c/h/app/none.jar'' False False)
                 (initState (exConfig ''http://h/app/both.jnlp'') exDisk)))
     = [NetError ''http://h/app/none.jar'']
   \<and> errs (snd (runTask exEnv (exConfig ''http://h/app/both.jnlp'') None
                 (ResourceTask ''http://h/app/x.jar'' ''/c/h/app/x.jar'' True False)
                 (initState (exConfig ''http://h/app/both.jnlp'') exDisk)))
     = [ZipError ''/c/h/app/x.jar'']
   \<and> errs (snd (runTask exEnv (exConfig ''http://h/app/both.jnlp'') None
                 (ResourceTask ''http://h/app/jre/jre.exe'' ''/c/h/jre.exe'' False False)
                 (initState (exConfig ''http://h/app/both.jnlp'') exDisk)))
     = [ExecError ''/c/h/jre.exe'']
   \<and> fst (runTask exEnv (exConfig ''http://h/app/both.jnlp'') None
            (JnlpTask ''http://h/app/gone.jnlp'' False)
            (initState (exConfig ''http://h/app/both.jnlp'') exDisk)) = Killed
   \<and> errs (snd (runTask exEnv (exConfig ''http://h/app/both.jnlp'') None
            (JnlpTask ''http://h/app/gone.jnlp'' False)
            (initState (exConfig ''http://h/app/both.jnlp'') exDisk))) = []"
proof -
  let ?C = "exConfig ''http://h/app/both.jnlp''"
  let ?s = "initState ?C exDisk"
  have d: "fst (download exEnv ''http://h/app/none.jar'' ''/c/h/app/none.jar'' ?s)
             = Some (NetError ''http://h/app/none.jar'')"
    by (simp add: dl_defs ex_defs)
  have z: "fst (download exEnv ''http://h/app/x.jar'' ''/c/h/app/x.jar'' ?s) = None
           \<and> fst (unpacked exEnv ''/c/h/app/x.jar'' True
                 (snd (download exEnv ''http://h/app/x.jar'' ''/c/h/app/x.jar'' ?s)))
               = Some (ZipError ''/c/h/app/x.jar'')"
    by (simp add: dl_defs ex_defs path_defs unpacked_def runUnzip_def)
  have x: "fst (download exEnv ''http://h/app/jre/jre.exe'' ''/c/h/jre.exe'' ?s) = None
           \<and> fst (unpacked exEnv ''/c/h/jre.exe'' False
                 (snd (download exEnv ''http://h/app/jre/jre.exe'' ''/c/h/jre.exe'' ?s))) = None
           \<and> fst (extracted exEnv ''/c/h/jre.exe'' False
                 (snd (unpacked exEnv ''/c/h/jre.exe'' False
                    (snd (download exEnv ''http://h/app/jre/jre.exe'' ''/c/h/jre.exe'' ?s)))))
               = Some (ExecError ''/c/h/jre.exe'')"
    by (simp add: dl_defs ex_defs path_defs unpacked_def extracted_def runSelfextract_def
          HasSuffix_def)
  have g: "httpGet exEnv ''http://h/app/gone.jnlp''
             = Inr \<lparr>StatusCode = 404, ContentLength = ''9'', Body = ''Not Found'', BodyErr = None\<rparr>"
    by (simp add: ex_defs)
  have e: "errs ?s = []" by (simp add: initState_def)
  note T1 = task_failure_effects [of exEnv ?C None "''http://h/app/none.jar''"
      "''/c/h/app/none.jar''" False False ?s "''http://h/app/gone.jnlp''" False]
  note T2 = task_failure_effects [of exEnv ?C None "''http://h/app/x.jar''"
      "''/c/h/app/x.jar''" True False ?s "''http://h/app/gone.jnlp''" False]
  note T3 = task_failure_effects [of exEnv ?C None "''http://h/app/jre/jre.exe''"
      "''/c/h/jre.exe''" False False ?s "''http://h/app/gone.jnlp''" False]
  from T1 d have a1: "errs (snd (runTask exEnv ?C None
      (ResourceTask ''http://h/app/none.jar'' ''/c/h/app/none.jar'' False False) ?s))
        = errs ?s @ [NetError ''http://h/app/none.jar'']" by blast
  from T2 z have a2: "errs (snd (runTask exEnv ?C None
      (ResourceTask ''http://h/app/x.jar'' ''/c/h/app/x.jar'' True False) ?s))
        = errs ?s @ [ZipError ''/c/h/app/x.jar'']" by blast
  from T3 x have a3: "errs (snd (runTask exEnv ?C None
      (ResourceTask ''http://h/app/jre/jre.exe'' ''/c/h/jre.exe'' False False) ?s))
        = errs ?s @ [ExecError ''/c/h/jre.exe'']" by blast
  from T1 g have k: "fst (runTask exEnv ?C None (JnlpTask ''http://h/app/gone.jnlp'' False) ?s)
        = Killed" by simp
  with T1 have a4: "errs (snd (runTask exEnv ?C None (JnlpTask ''http://h/app/gone.jnlp'' False) ?s))
        = errs ?s" by blast
  from a1 a2 a3 a4 k d e show ?thesis by simp
qed

text \<open>
  The claim as it stands fails for the nested descriptor. \<^verbatim>\<open>both.jnlp\<close> has a jar and an
  extension \<^verbatim>\<open>gone.jnlp\<close> that the server answers with 404. When the goroutine of the
  extension runs, the process is gone: no error is recorded, and the task of the jar,
  started before, never runs.
\<close>

theorem nested_status_kills_process:
  "fst (exec exEnv (exConfig ''http://h/app/both.jnlp'') [Main, Go 1]
      (Start, initState (exConfig ''http://h/app/both.jnlp'') exDisk)) = Killed
   \<and> pool (snd (exec exEnv (exConfig ''http://h/app/both.jnlp'') [Main, Go 1]
      (Start, initState (exConfig ''http://h/app/both.jnlp'') exDisk)))
     = [ResourceTask ''http://h/app/x.jar'' ''/c/h/app/x.jar'' False False]
   \<and> errs (snd (exec exEnv (exConfig ''http://h/app/both.jnlp'') [Main, Go 1]
      (Start, initState (exConfig ''http://h/app/both.jnlp'') exDisk))) = []
   \<and> files (disk (snd (exec exEnv (exConfig ''http://h/app/both.jnlp'') [Main, Go 1]
      (Start, initState (exConfig ''http://h/app/both.jnlp'') exDisk)))) ''/c/h/app/x.jar'' = None"
  by (simp add: run_defs dl_defs ex_defs path_defs nofilter_active)

section \<open>The platform filter\<close>

lemma decodeRunes_ascii: "list_all (\<lambda>b. b < 128) bs \<Longrightarrow> decodeRunes bs = bs"
  by (induction bs) simp_all

lemma runesOf_ascii: "isASCII s \<Longrightarrow> runesOf s = map of_char s"
  by (simp add: runesOf_def isASCII_def decodeRunes_ascii list_all_iff)

lemma stringOf_ascii: "list_all (\<lambda>r. r < 128) rs \<Longrightarrow> stringOf rs = map char_of rs"
  by (induction rs) (simp_all add: stringOf_def encodeRune_def)

lemma runesOf_stringOf:
  assumes "list_all (\<lambda>r. r < 128) rs"
  shows "runesOf (stringOf rs) = rs"
proof -
  from assms have m: "map (of_char :: char \<Rightarrow> nat) (map char_of rs) = rs"
    by (induction rs) simp_all
  with assms have "list_all (\<lambda>b. b < 128) (map (of_char :: char \<Rightarrow> nat) (map char_of rs))" by simp
  with m show ?thesis
    using assms by (simp add: runesOf_def stringOf_ascii decodeRunes_ascii del: map_map)
qed

lemma toUpperRune_ascii: "r < 128 \<Longrightarrow> toUpperRune r < 128 \<and> toLowerRune (toUpperRune r) = toLowerRune r"
  by (auto simp: toUpperRune_def toLowerRune_def)

lemma titleRunes_ascii:
  "list_all (\<lambda>r. r < 128) rs \<Longrightarrow>
     list_all (\<lambda>r. r < 128) (titleRunes prev rs)
     \<and> map toLowerRune (titleRunes prev rs) = map toLowerRune rs
     \<and> length (titleRunes prev rs) = length rs"
  by (induction rs arbitrary: prev) (simp_all add: toTitleRune_def toUpperRune_ascii)

lemma upperRunes_ascii:
  "list_all (\<lambda>r. r < 128) rs \<Longrightarrow>
     list_all (\<lambda>r. r < 128) (map toTitleRune rs)
     \<and> map toLowerRune (map toTitleRune rs) = map toLowerRune rs"
  by (induction rs) (simp_all add: toTitleRune_def toUpperRune_ascii)

lemma ascii_runes: "isASCII s \<Longrightarrow> list_all (\<lambda>r. r < 128) (runesOf s)"
  by (simp add: runesOf_ascii) (simp add: isASCII_def list_all_iff)

lemma ToLower_Title: "isASCII s \<Longrightarrow> ToLower (Title s) = ToLower s"
  using titleRunes_ascii [OF ascii_runes, of s 32]
  by (simp add: ToLower_def Title_def runesOf_stringOf)

lemma ToLower_ToTitle: "isASCII s \<Longrightarrow> ToLower (ToTitle s) = ToLower s"
  using upperRunes_ascii [OF ascii_runes, of s]
  by (simp add: ToLower_def ToTitle_def runesOf_stringOf del: map_map)

lemma Title_empty: "isASCII s \<Longrightarrow> (Title s = []) = (s = [])"
  using titleRunes_ascii [OF ascii_runes, of s 32]
  by (auto simp: Title_def stringOf_ascii runesOf_ascii)

lemma ToTitle_empty: "isASCII s \<Longrightarrow> (ToTitle s = []) = (s = [])"
  using upperRunes_ascii [OF ascii_runes, of s]
  by (auto simp: ToTitle_def stringOf_ascii runesOf_ascii)

text \<open>
  \<^bold>\<open>C6\<close>, the platform filter, as the code has it. For a resource group whose \<^verbatim>\<open>os\<close> and
  \<^verbatim>\<open>arch\<close> attributes are ASCII, and any running system and architecture, the group is
  selected iff each filter is empty or equal to the running value without regard to
  case; the \<^verbatim>\<open>Title\<close> and \<^verbatim>\<open>ToTitle\<close> normalisation does not change the outcome.
\<close>

theorem platform_filter_ascii:
  assumes "isASCII (Os r)" and "isASCII (Arch r)"
  shows "resourceActive r runtimeArch runtimeOs
           = specActive (Os r) (Arch r) runtimeOs runtimeArch"
  using assms
  by (auto simp: resourceActive_def relevant_def specActive_def CompareIgnoreCase_def
        ToLower_Title ToLower_ToTitle Title_empty ToTitle_empty)

theorem platform_filter_ascii_witness:
  "isASCII ''linux'' \<and> isASCII ''AMD64''
   \<and> resourceActive ((exGroup [] [])\<lparr>Os := ''linux'', Arch := ''AMD64''\<rparr>) ''amd64''
        (operatingsystem (exConfig []))
   \<and> specActive ''linux'' ''AMD64'' (operatingsystem (exConfig [])) ''amd64''"
proof -
  let ?r = "(exGroup [] [])\<lparr>Os := ''linux'', Arch := ''AMD64''\<rparr>"
  have h1: "isASCII (Os ?r)" and h2: "isASCII (Arch ?r)"
    by (simp_all add: exGroup_def isASCII_def)
  have s: "specActive ''linux'' ''AMD64'' (operatingsystem (exConfig [])) ''amd64''"
    by code_simp
  from platform_filter_ascii [OF h1 h2, of "''amd64''" "operatingsystem (exConfig [])"] s h1 h2
  show ?thesis by (simp add: exGroup_def)
qed

text \<open>
  Beyond ASCII the normalisation does change the outcome. The dotless i has the upper
  case \<^verbatim>\<open>I\<close>, whose lower case is the dotted \<^verbatim>\<open>i\<close>: the filter \<^verbatim>\<open>os="l\<close>U+0131\<^verbatim>\<open>nux"\<close>
  becomes \<^verbatim>\<open>LINUX\<close> and the group is selected on Linux, though the attribute is not
  equal to \<^verbatim>\<open>LINUX\<close> without regard to case.
\<close>

theorem platform_filter_counterexample:
  "resourceActive ((exGroup [] [])\<lparr>Os := dotlessLinux\<rparr>) ''amd64'' (operatingsystem (exConfig []))
   \<and> \<not> specActive dotlessLinux [] (operatingsystem (exConfig [])) ''amd64''
   \<and> ToTitle dotlessLinux = ''LINUX''
   \<and> ToLower dotlessLinux = dotlessLinux
   \<and> operatingsystem (exConfig []) = ''LINUX''"
  by code_simp

section \<open>Paths\<close>








subsection \<open>The elements that \<open>cleanElems\<close> keeps\<close>




















section \<open>The cache layout\<close>















section \<open>The wait group counts every artifact task\<close>

lemma runResource_covered:
  "int (length (filter artifact (pool s))) + 1 \<le> wg s \<Longrightarrow> covered (runResource E u p z x s)"
  using runResource_effect [of E u p z x s] by (auto simp: covered_def)

lemma jarLoop_covered: "covered s \<Longrightarrow> covered (lstate (jarLoop E C a host cb js s))"
  by (induction js arbitrary: s)
     (auto simp: Let_def covered_def wgAdd_def spawn_def Add_def split: sum.splits)

lemma nativelibLoop_covered: "covered s \<Longrightarrow> covered (lstate (nativelibLoop E C a host cb js s))"
  by (induction js arbitrary: s)
     (auto simp: Let_def covered_def wgAdd_def spawn_def Add_def split: sum.splits)

lemma extensionLoop_covered: "covered s \<Longrightarrow> covered (lstate (extensionLoop E a cb es s))"
  by (induction es arbitrary: s)
     (auto simp: covered_def spawn_def Add_def split: sum.splits)

lemma heap_frame_wg:
  "wg (foldl (\<lambda>t j. t\<lparr>maxheapsize := MaxHeapSize j\<rparr>) t (js :: J2se list)) = wg t"
  by (induction js arbitrary: t) simp_all

lemma header_covered: "covered s \<Longrightarrow> covered (header r s)"
  by (simp add: header_def Let_def covered_def heap_frame heap_frame_wg)

lemma resourceLoop_covered:
  "covered s \<Longrightarrow> covered (lstate (resourceLoop E C a host cb h rs s))"
proof (induction rs arbitrary: s)
  case Nil
  then show ?case by simp
next
  case (Cons r rest)
  show ?case
  proof (cases "resourceActive r (arch C) (operatingsystem C)")
    case False
    with Cons show ?thesis by simp
  next
    case True
    note act = this
    from jarLoop_covered [OF Cons.prems]
    have c1: "covered (lstate (jarLoop E C a host cb (Jars r) s))" .
    show ?thesis
    proof (cases "jarLoop E C a host cb (Jars r) s")
      case (Abort s1)
      with act c1 show ?thesis by simp
    next
      case (Next s1)
      note j = this
      with c1 have "covered s1" by simp
      from extensionLoop_covered [OF this]
      have c2: "covered (lstate (extensionLoop E a cb (Extensions r) s1))" .
      show ?thesis
      proof (cases "extensionLoop E a cb (Extensions r) s1")
        case (Abort s2)
        with act j c2 show ?thesis by simp
      next
        case (Next s2)
        note x = this
        with c2 have "covered s2" by simp
        from nativelibLoop_covered [OF this]
        have c3: "covered (lstate (nativelibLoop E C a host cb (Nativelibs r) s2))" .
        show ?thesis
        proof (cases "nativelibLoop E C a host cb (Nativelibs r) s2")
          case (Abort s3)
          with act j x c3 show ?thesis by simp
        next
          case (Next s3)
          with c3 have "covered s3" by simp
          then have "covered (if h then header r s3 else s3)" by (simp add: header_covered)
          from Cons.IH [OF this] act j x Next show ?thesis by simp
        qed
      qed
    qed
  qed
qed

lemma jreLoop_covered: "covered s \<Longrightarrow> covered (lstate (jreLoop E C a host cb h js s))"
proof (induction js arbitrary: s)
  case Nil
  then show ?case by simp
next
  case (Cons jre rest)
  show ?case
  proof (cases "relevant (jreArch jre) (jreOs jre) (arch C) (operatingsystem C)")
    case False
    with Cons show ?thesis by simp
  next
    case True
    note act = this
    show ?thesis
    proof (cases "urlResolve E a (cb @ ''/'' @ jreHref jre)")
      case (Inl e)
      with act Cons.prems show ?thesis by (simp add: covered_def Add_def wgAdd_def)
    next
      case (Inr url)
      let ?p = "jrePath E C host jre"
      let ?s2 = "if h then (wgAdd s)\<lparr>jrepath := Join [Dir ?p, ''bin'', ''javaw'']\<rparr> else wgAdd s"
      from Cons.prems have "int (length (filter artifact (pool ?s2))) + 1 \<le> wg ?s2"
        by (simp add: covered_def wgAdd_def)
      from Cons.IH [OF runResource_covered [OF this]] act Inr show ?thesis by (simp add: Let_def)
    qed
  qed
qed

lemma walk_covered: "covered s \<Longrightarrow> covered (final (walk E C a host cb h j s))"
proof -
  assume c: "covered s"
  from resourceLoop_covered [OF c]
  have c1: "covered (lstate (resourceLoop E C a host cb h (Resources j) s))" .
  show ?thesis
  proof (cases "resourceLoop E C a host cb h (Resources j) s")
    case (Abort s1)
    with c1 show ?thesis by (simp add: walk_def)
  next
    case (Next s1)
    with c1 have "covered s1" by simp
    from jreLoop_covered [OF this, of E C a host cb h "PrivateJres j"] Next show ?thesis
      by (cases "jreLoop E C a host cb h (PrivateJres j) s1") (simp_all add: walk_def)
  qed
qed

lemma runJnlp_covered: "covered s \<Longrightarrow> covered (final (runJnlp E C a h s))"
proof -
  assume c: "covered s"
  let ?s0 = "s\<lparr>netlog := netlog s @ [GET a]\<rparr>"
  from c have s0: "covered ?s0" by (simp add: covered_def)
  then have ad: "\<And>e. covered (Add e ?s0)" by (simp add: covered_def Add_def)
  have w: "\<And>host cb j. covered (final (walk E C a host cb h j ?s0))"
    by (rule walk_covered [OF s0])
  show ?thesis
    unfolding runJnlp_def Let_def
    using s0 ad w
    by (simp split: sum.splits option.splits)
qed

lemma removed_artifact:
  assumes "i < length ts" and "artifact (ts ! i)"
  shows "length (filter artifact (take i ts @ drop (Suc i) ts)) + 1 = length (filter artifact ts)"
proof -
  from assms(1) have "ts = take i ts @ ts ! i # drop (Suc i) ts" by (rule id_take_nth_drop)
  then have "length (filter artifact ts)
      = length (filter artifact (take i ts @ ts ! i # drop (Suc i) ts))" by simp
  with assms(2) show ?thesis by simp
qed

lemma removed_other:
  assumes "i < length ts" and "\<not> artifact (ts ! i)"
  shows "length (filter artifact (take i ts @ drop (Suc i) ts)) = length (filter artifact ts)"
proof -
  from assms(1) have "ts = take i ts @ ts ! i # drop (Suc i) ts" by (rule id_take_nth_drop)
  then have "length (filter artifact ts)
      = length (filter artifact (take i ts @ ts ! i # drop (Suc i) ts))" by simp
  with assms(2) show ?thesis by simp
qed

lemma sched_covered: "covered s \<Longrightarrow> covered (snd (sched E C ch (ph, s)))"
proof (cases ph)
  case Start
  assume c: "covered s"
  have "covered (snd (runBefore E C s))"
  proof (cases "FileExists (disk s) (cache C)")
    case (Inl e)
    with c show ?thesis by (simp add: runBefore_def)
  next
    case (Inr b)
    show ?thesis
    proof (cases "if \<not> b then MkdirAll (disk s) (cache C) else Inr (disk s)")
      case (Inl e)
      with Inr c show ?thesis by (simp add: runBefore_def)
    next
      case (Inr d)
      define s1 where "s1 = s\<lparr>disk := d,
          jrepath := (if length (jrepath s) = 0
                      then (if GOOS C = ''windows'' then ''javaw'' else ''java'')
                      else jrepath s)\<rparr>"
      from c have "covered s1" by (simp add: s1_def covered_def)
      from runJnlp_covered [OF this]
      have n: "covered (final (runJnlp E C (address C) True s1))" .
      have "runBefore E C s =
              (case runJnlp E C (address C) True s1 of
                 Exited s2 \<Rightarrow> (Killed, s2)
               | Panicked s2 \<Rightarrow> (Crashed, s2)
               | Returned jnlp s2 \<Rightarrow> (Waiting jnlp, s2))"
        using \<open>FileExists (disk s) (cache C) = Inr b\<close> Inr
        by (simp add: runBefore_def s1_def Let_def)
      with n show ?thesis by (cases "runJnlp E C (address C) True s1") simp_all
    qed
  qed
  with Start show ?thesis by (cases ch) (use c in simp_all)
next
  case (Waiting j)
  assume c: "covered s"
  show ?thesis
  proof (cases ch)
    case Main
    with Waiting c show ?thesis by simp
  next
    case (Go i)
    show ?thesis
    proof (cases "i < length (pool s)")
      case False
      with Waiting Go c show ?thesis by simp
    next
      case True
      let ?s = "s\<lparr>pool := take i (pool s) @ drop (Suc i) (pool s)\<rparr>"
      show ?thesis
      proof (cases "pool s ! i")
        case (ResourceTask u p z x)
        with removed_artifact [OF True] c
        have "int (length (filter artifact (pool ?s))) + 1 \<le> wg ?s" by (simp add: covered_def)
        from runResource_covered [OF this] Waiting Go True ResourceTask show ?thesis
          by (simp add: runTask_def)
      next
        case (JnlpTask a h)
        with removed_other [OF True] c have "covered ?s" by (simp add: covered_def)
        from runJnlp_covered [OF this, of E C a h] Waiting Go True JnlpTask show ?thesis
          by (cases "runJnlp E C a h ?s") (simp_all add: runTask_def)
      qed
    qed
  qed
qed (cases ch; simp)+

text \<open>From the start of \<^verbatim>\<open>run\<close> on, under every schedule, the counter of the wait group
  is at least the number of artifact tasks that have not run; it is never negative.\<close>

lemma exec_covered: "covered s \<Longrightarrow> covered (snd (exec E C chs (ph, s)))"
proof (induction chs arbitrary: ph s)
  case Nil
  then show ?case by simp
next
  case (Cons ch chs)
  obtain ph1 s1 where st: "sched E C ch (ph, s) = (ph1, s1)" by (cases "sched E C ch (ph, s)")
  with sched_covered [OF Cons.prems, of E C ch ph] have "covered s1" by simp
  from Cons.IH [OF this, of ph1] st show ?case by simp
qed

lemma wg_never_negative: "0 \<le> wg (snd (exec E C chs (Start, initState C d)))"
proof -
  have "covered (initState C d)" by (simp add: covered_def initState_def)
  from exec_covered [OF this, of E C chs Start] show ?thesis
    by (simp add: covered_def)
qed

end
